theory Spec2Isabelle
  imports Complex_Main "HOL-Library.Multiset"
begin

text \<open>
  Two tutorial notebooks on self-supervised pre-training: MoCo on CIFAR-10
  (workspace/notebooks/MoCo\_cifar-10.ipynb), which defines two subclasses of
  \<^verbatim>\<open>pl.LightningModule\<close> and leaves the training loop to the trainer of Lightning, and
  SimCLR on a Detectron2 backbone, which trains in a loop of its own and saves a
  checkpoint. The first half of the theory is the model: the parameters of the networks
  and what the calls of the notebooks do to them, the two subclasses, and the code of
  both notebooks as syntax with an interpreter over it. The second half holds the
  properties.
\<close>

section \<open>Parameters of the networks\<close>

text \<open>
  The notebooks hold no tensor arithmetic of their own: they call torch, Lightning and
  lightly. What the claims need of those libraries is how the calls the notebooks make
  read and write the \<^emph>\<open>parameters\<close> of a module. A parameter is an object with an
  identity, shared by every module that refers to it (\<^verbatim>\<open>Classifier(model.backbone)\<close>
  shares the backbone with the MoCo model), so parameters live in a store and a module
  is the list of the addresses \<^verbatim>\<open>module.parameters()\<close> yields, in order. Tensor
  entries are real numbers: rounding of floating-point arithmetic is outside the model.
  Buffers (the running statistics of batch normalisation) are not parameters and are
  not modelled.
\<close>

type_synonym addr = nat
type_synonym tensor = "real list"

record param =
  data :: tensor
  requires_grad :: bool
  grad :: "tensor option"

record heap =
  params :: "addr \<Rightarrow> param option"
  fresh :: addr

type_synonym nn_module = "addr list"

definition modify :: "addr \<Rightarrow> (param \<Rightarrow> param) \<Rightarrow> heap \<Rightarrow> heap" where
  "modify a f h = h\<lparr>params := (params h)(a := map_option f (params h a))\<rparr>"

definition value_of :: "heap \<Rightarrow> addr \<Rightarrow> tensor" where
  "value_of h a = (case params h a of Some p \<Rightarrow> data p | None \<Rightarrow> [])"

text \<open>
  Modelled from the spec: the constructors of the library modules
  (\<^verbatim>\<open>torchvision.models.mobilenet_v2\<close>, \<^verbatim>\<open>nn.Linear\<close>, \<^verbatim>\<open>MoCoProjectionHead\<close>) are not
  in src/. A constructor creates new parameter objects, trainable and without a
  gradient; their initial values are random, so they are arguments here.
\<close>

fun new_module :: "tensor list \<Rightarrow> heap \<Rightarrow> nn_module \<times> heap" where
  "new_module [] h = ([], h)"
| "new_module (t # ts) h =
     (case new_module ts
             (h\<lparr>params := (params h)(fresh h \<mapsto> \<lparr>data = t, requires_grad = True, grad = None\<rparr>),
                fresh := Suc (fresh h)\<rparr>) of
        (as, h') \<Rightarrow> (fresh h # as, h'))"

text \<open>
  Modelled from the spec: \<^verbatim>\<open>copy.deepcopy\<close> (Python's standard library) of a module
  gives a module with parameter objects of its own that hold the same values and flags.
\<close>

fun deepcopy :: "nn_module \<Rightarrow> heap \<Rightarrow> nn_module \<times> heap" where
  "deepcopy [] h = ([], h)"
| "deepcopy (a # as) h =
     (case deepcopy as (h\<lparr>params := (params h)(fresh h := params h a), fresh := Suc (fresh h)\<rparr>) of
        (bs, h') \<Rightarrow> (fresh h # bs, h'))"

text \<open>
  Modelled from the spec: \<^verbatim>\<open>lightly.models.utils.deactivate_requires_grad\<close> is not in
  src/. It sets \<^verbatim>\<open>requires_grad = False\<close> on every parameter of the module.
\<close>

fun deactivate_requires_grad :: "nn_module \<Rightarrow> heap \<Rightarrow> heap" where
  "deactivate_requires_grad [] h = h"
| "deactivate_requires_grad (a # as) h =
     deactivate_requires_grad as (modify a (\<lambda>p. p\<lparr>requires_grad := False\<rparr>) h)"

text \<open>
  Modelled from the spec: \<^verbatim>\<open>lightly.models.utils.update_momentum(model, model_ema, m)\<close>
  is not in src/. It walks the two parameter lists together and replaces the data of
  each parameter of \<^verbatim>\<open>model_ema\<close> by \<^verbatim>\<open>model_ema.data * m + model.data * (1 - m)\<close>.
\<close>

definition ema :: "real \<Rightarrow> tensor \<Rightarrow> tensor \<Rightarrow> tensor" where
  "ema m old online = map2 (\<lambda>e p. e * m + p * (1 - m)) old online"

fun update_momentum :: "nn_module \<Rightarrow> nn_module \<Rightarrow> real \<Rightarrow> heap \<Rightarrow> heap" where
  "update_momentum (p # ps) (e # es) m h =
     update_momentum ps es m (modify e (\<lambda>q. q\<lparr>data := ema m (data q) (value_of h p)\<rparr>) h)"
| "update_momentum ps es m h = h"

text \<open>
  Modelled from the spec: autograd and the optimizer are torch's, and the loop that
  calls them is Lightning's; none of it is in src/. One iteration of that loop is
  \<^verbatim>\<open>training_step\<close>, \<^verbatim>\<open>optimizer.zero_grad()\<close>, \<^verbatim>\<open>loss.backward()\<close> and the update of
  \<^verbatim>\<open>optimizer.step()\<close>. What the numbers are is left open: an iteration comes with the
  gradient autograd computes for each parameter and with the optimizer's update rule
  (learning rate, momentum buffer, weight decay and scheduler are all inside \<open>rule\<close>).
  What is fixed is which parameters each call may write:
  \<^item> \<^verbatim>\<open>zero_grad\<close> resets the gradient of the optimizer's parameters that have one
    (to \<^verbatim>\<open>None\<close> or to zeros, depending on the version of torch);
  \<^item> \<^verbatim>\<open>backward\<close> gives a gradient to the parameters of the module that require one;
  \<^item> \<^verbatim>\<open>step\<close> updates the optimizer's parameters that have a gradient, and skips
    those whose gradient is \<^verbatim>\<open>None\<close>.
\<close>

record iteration =
  gradient :: "addr \<Rightarrow> tensor"
  rule :: "addr \<Rightarrow> tensor \<Rightarrow> tensor \<Rightarrow> tensor"
  set_to_none :: bool

fun zero_grad :: "iteration \<Rightarrow> addr list \<Rightarrow> heap \<Rightarrow> heap" where
  "zero_grad it [] h = h"
| "zero_grad it (a # as) h =
     zero_grad it as
       (modify a (\<lambda>p. p\<lparr>grad := (case grad p of None \<Rightarrow> None
                                   | Some g \<Rightarrow> if set_to_none it then None
                                              else Some (map (\<lambda>_. 0) g))\<rparr>) h)"

fun backward :: "iteration \<Rightarrow> addr list \<Rightarrow> heap \<Rightarrow> heap" where
  "backward it [] h = h"
| "backward it (a # as) h =
     backward it as
       (modify a (\<lambda>p. if requires_grad p
                       then p\<lparr>grad := (case grad p of None \<Rightarrow> Some (gradient it a)
                                         | Some g \<Rightarrow> Some (map2 (+) g (gradient it a)))\<rparr>
                       else p) h)"

fun optimizer_step :: "iteration \<Rightarrow> addr list \<Rightarrow> heap \<Rightarrow> heap" where
  "optimizer_step it [] h = h"
| "optimizer_step it (a # as) h =
     optimizer_step it as
       (modify a (\<lambda>p. case grad p of None \<Rightarrow> p
                                    | Some g \<Rightarrow> p\<lparr>data := rule it a (data p) g\<rparr>) h)"

section \<open>The MoCo model\<close>

text \<open>
  \<^verbatim>\<open>
  class MocoModel(pl.LightningModule):
      def __init__(self, num_ftrs=512):
          ...
          self.backbone = nn.Sequential(...)
          self.projection_head = MoCoProjectionHead(num_ftrs, 512, 128)
          self.backbone_momentum = copy.deepcopy(self.backbone)
          self.projection_head_momentum = copy.deepcopy(self.projection_head)
          deactivate_requires_grad(self.backbone_momentum)
          deactivate_requires_grad(self.projection_head_momentum)
          self.criterion = NTXentLoss(temperature=0.1, memory_bank_size=memory_bank_size)
  \<close>
  The loss has no parameters.
\<close>

record moco_model =
  backbone :: nn_module
  projection_head :: nn_module
  backbone_momentum :: nn_module
  projection_head_momentum :: nn_module

definition MocoModel_init :: "tensor list \<Rightarrow> tensor list \<Rightarrow> heap \<Rightarrow> moco_model \<times> heap" where
  "MocoModel_init backbone_weights head_weights h0 =
     (case new_module backbone_weights h0 of (bb, h1) \<Rightarrow>
      case new_module head_weights h1 of (ph, h2) \<Rightarrow>
      case deepcopy bb h2 of (bbm, h3) \<Rightarrow>
      case deepcopy ph h3 of (phm, h4) \<Rightarrow>
        (\<lparr>backbone = bb, projection_head = ph,
          backbone_momentum = bbm, projection_head_momentum = phm\<rparr>,
         deactivate_requires_grad phm (deactivate_requires_grad bbm h4)))"

text \<open>
  \<^verbatim>\<open>
  def training_step(self, batch, batch_idx):
      (x_q, x_k), _, _ = batch
      update_momentum(self.backbone, self.backbone_momentum, 0.99)
      update_momentum(self.projection_head, self.projection_head_momentum, 0.99)
      q = self.backbone(x_q).flatten(start_dim=1)
      ...
      loss = self.criterion(q, k)
      self.log("train_loss_ssl", loss)
      return loss
  \<close>
  The two calls of \<^verbatim>\<open>update_momentum\<close> are the only statements of the method that
  write a parameter; the forward passes and the loss read them.
\<close>

definition MocoModel_training_step :: "moco_model \<Rightarrow> heap \<Rightarrow> heap" where
  "MocoModel_training_step self h =
     update_momentum (projection_head self) (projection_head_momentum self) 0.99
       (update_momentum (moco_model.backbone self) (backbone_momentum self) 0.99 h)"

text \<open>
  \<^verbatim>\<open>
  def configure_optimizers(self):
      optim = torch.optim.SGD(self.parameters(), lr=6e-2, momentum=0.9, weight_decay=5e-4)
      scheduler = torch.optim.lr_scheduler.CosineAnnealingLR(optim, max_epochs)
      return [optim], [scheduler]
  \<close>
  \<^verbatim>\<open>self.parameters()\<close> yields the parameters of the four sub-modules in the order in
  which \<^verbatim>\<open>__init__\<close> assigned them: the optimizer is handed the momentum networks too.
\<close>

definition MocoModel_parameters :: "moco_model \<Rightarrow> addr list" where
  "MocoModel_parameters self =
     moco_model.backbone self @ projection_head self @ backbone_momentum self @ projection_head_momentum self"

definition MocoModel_configure_optimizers :: "moco_model \<Rightarrow> addr list" where
  "MocoModel_configure_optimizers self = MocoModel_parameters self"

text \<open>
  Modelled from the spec: one iteration of the trainer's loop (Lightning's, not in
  src/) on this model, and the loop over the batches of a run.
\<close>

definition moco_iteration :: "moco_model \<Rightarrow> heap \<Rightarrow> iteration \<Rightarrow> heap" where
  "moco_iteration self h it =
     optimizer_step it (MocoModel_configure_optimizers self)
       (backward it (MocoModel_parameters self)
          (zero_grad it (MocoModel_configure_optimizers self)
             (MocoModel_training_step self h)))"

definition moco_fit :: "moco_model \<Rightarrow> heap \<Rightarrow> iteration list \<Rightarrow> heap" where
  "moco_fit self h its = foldl (moco_iteration self) h its"

text \<open>A parameter that takes no part in training: no gradient is required, none is held.\<close>

definition frozen_without_grad :: "heap \<Rightarrow> addr \<Rightarrow> bool" where
  "frozen_without_grad h a =
     (case params h a of Some p \<Rightarrow> \<not> requires_grad p \<and> grad p = None | None \<Rightarrow> False)"

subsection \<open>The key path of the training step\<close>

text \<open>
  Modelled from the spec: indexing and sorting of tensors are torch's and not in src/.
  Indexing a batch with a tensor of row indices, \<^verbatim>\<open>batch[idx]\<close>, gives the rows in the
  order of the indices; an index outside the batch raises.
\<close>

datatype error = IndexError

definition index_rows :: "'a list \<Rightarrow> nat list \<Rightarrow> error + 'a list" where
  "index_rows batch idx =
     (if list_all (\<lambda>i. i < length batch) idx then Inr (map (\<lambda>i. batch ! i) idx)
      else Inl IndexError)"

text \<open>
  Modelled from the spec: \<^verbatim>\<open>torch.argsort\<close> gives the indices that put the entries
  in ascending order.
\<close>

definition argsort :: "nat list \<Rightarrow> nat list" where
  "argsort xs = sort_key (\<lambda>i. xs ! i) [0..<length xs]"

text \<open>
  Modelled from the spec: \<^verbatim>\<open>lightly.models.utils.batch_shuffle\<close> and
  \<^verbatim>\<open>batch_unshuffle\<close> are not in src/. \<^verbatim>\<open>batch_shuffle(batch)\<close> draws
  \<^verbatim>\<open>torch.randperm(batch_size)\<close> and returns the rows of the batch in that order
  together with the indices drawn; \<^verbatim>\<open>batch_unshuffle(batch, shuffle)\<close> returns the rows
  of the batch in the order \<^verbatim>\<open>torch.argsort(shuffle)\<close>. The random draw is the argument
  \<open>randperm\<close>.
\<close>

definition batch_shuffle :: "(nat \<Rightarrow> nat list) \<Rightarrow> 'a list \<Rightarrow> error + ('a list \<times> nat list)" where
  "batch_shuffle randperm batch =
     (let batch_size = length batch;
          shuffle = randperm batch_size
      in case index_rows batch shuffle of
           Inl e \<Rightarrow> Inl e
         | Inr rows \<Rightarrow> Inr (rows, shuffle))"

definition batch_unshuffle :: "'a list \<Rightarrow> nat list \<Rightarrow> error + 'a list" where
  "batch_unshuffle batch shuffle = (let unshuffle = argsort shuffle in index_rows batch unshuffle)"

text \<open>
  \<^verbatim>\<open>
      k, shuffle = batch_shuffle(x_k)
      k = self.backbone_momentum(k).flatten(start_dim=1)
      k = self.projection_head_momentum(k)
      k = batch_unshuffle(k, shuffle)
  \<close>
  These are the four statements of \<^verbatim>\<open>training_step\<close> that compute the keys; they
  write no parameter. The momentum networks are the library's: \<open>momentum_encoder\<close> stands
  for the two of them, one after the other, as a function from the batch it is handed to
  the batch of embeddings it returns. Nothing is assumed of it here: a row of its result
  may depend on the whole batch and on the order of its rows (batch normalisation on
  several devices does), so what it is handed, the batch or the shuffled batch, can be
  told from its result.
\<close>

definition MocoModel_keys ::
  "(nat \<Rightarrow> nat list) \<Rightarrow> ('x list \<Rightarrow> 'e list) \<Rightarrow> 'x list \<Rightarrow> error + 'e list" where
  "MocoModel_keys randperm momentum_encoder x_k =
     (case batch_shuffle randperm x_k of
        Inl e \<Rightarrow> Inl e
      | Inr (k, shuffle) \<Rightarrow> batch_unshuffle (momentum_encoder k) shuffle)"

section \<open>The linear-probe classifier\<close>

text \<open>
  \<^verbatim>\<open>Classifier\<close> (notebook MoCo\_cifar-10, cell "Create the Classifier Lightning Module")
  keeps a Python list \<^verbatim>\<open>validation_step_outputs\<close> of pairs \<^verbatim>\<open>(num, correct)\<close>.
  \<^verbatim>\<open>num\<close> is a Python int (\<^verbatim>\<open>predicted.shape[0]\<close>), \<^verbatim>\<open>correct\<close> a float tensor
  holding a count; the count is kept as a real number here. What \<^verbatim>\<open>self.log\<close> is
  handed is kept in the field \<open>logged\<close>.

  The quotient of a float tensor by a Python int does not raise when the int is zero:
  torch yields inf or nan. The model keeps that outcome apart from every finite value.
\<close>

datatype metric = Finite real | NonFinite

definition tensor_div :: "real \<Rightarrow> nat \<Rightarrow> metric" where
  "tensor_div c n = (if n = 0 then NonFinite else Finite (c / real n))"

record classifier =
  backbone :: nn_module
  fc :: nn_module
  validation_step_outputs :: "(nat \<times> real) list"
  logged :: "(string \<times> metric) list"

text \<open>
  \<^verbatim>\<open>
  class Classifier(pl.LightningModule):
      def __init__(self, backbone):
          super().__init__()
          self.backbone = backbone
          deactivate_requires_grad(backbone)
          self.fc = nn.Linear(512, 10)
          self.criterion = nn.CrossEntropyLoss()
          self.validation_step_outputs = []
  \<close>
  \<^verbatim>\<open>nn.Linear(512, 10)\<close> has two parameters, its weight and its bias; the loss has none.
\<close>

definition Classifier_init :: "nn_module \<Rightarrow> tensor \<Rightarrow> tensor \<Rightarrow> heap \<Rightarrow> classifier \<times> heap" where
  "Classifier_init backbone_arg fc_weight fc_bias h =
     (case new_module [fc_weight, fc_bias] (deactivate_requires_grad backbone_arg h) of
        (fc_layer, h') \<Rightarrow>
          (\<lparr>backbone = backbone_arg, fc = fc_layer, validation_step_outputs = [], logged = []\<rparr>, h'))"

text \<open>
  \<^verbatim>\<open>
  def configure_optimizers(self):
      optim = torch.optim.SGD(self.fc.parameters(), lr=30.0)
      scheduler = torch.optim.lr_scheduler.CosineAnnealingLR(optim, max_epochs)
      return [optim], [scheduler]
  \<close>
  The result is the list of parameters the optimizer holds. \<^verbatim>\<open>self.parameters()\<close>
  of the whole module yields the parameters of the backbone, then those of \<^verbatim>\<open>fc\<close>.
\<close>

definition Classifier_parameters :: "classifier \<Rightarrow> addr list" where
  "Classifier_parameters self = classifier.backbone self @ fc self"

definition Classifier_configure_optimizers :: "classifier \<Rightarrow> addr list" where
  "Classifier_configure_optimizers self = fc self"

text \<open>
  Modelled from the spec: one iteration of the trainer's loop (Lightning's, not in
  src/) on the classifier, and the loop over the batches of a run. \<^verbatim>\<open>training_step\<close>
  runs \<^verbatim>\<open>forward\<close> and the loss and writes no parameter, so an iteration is
  \<^verbatim>\<open>zero_grad\<close>, \<^verbatim>\<open>backward\<close> over the parameters of the whole module, and the update.
\<close>

definition classifier_iteration :: "classifier \<Rightarrow> heap \<Rightarrow> iteration \<Rightarrow> heap" where
  "classifier_iteration self h it =
     optimizer_step it (Classifier_configure_optimizers self)
       (backward it (Classifier_parameters self)
          (zero_grad it (Classifier_configure_optimizers self) h))"

definition classifier_fit :: "classifier \<Rightarrow> heap \<Rightarrow> iteration list \<Rightarrow> heap" where
  "classifier_fit self h its = foldl (classifier_iteration self) h its"

text \<open>
  A collated batch \<^verbatim>\<open>x, y, _ = batch\<close>: \<^verbatim>\<open>x\<close> and \<^verbatim>\<open>y\<close> have the same first
  dimension, so a batch is a list of (image, label) pairs. \<open>classify\<close> stands for
  what \<^verbatim>\<open>torch.max(softmax(self.forward(x)), 1)\<close> picks for one image: the network is
  not part of the repository.

  \<^verbatim>\<open>
  def validation_step(self, batch, batch_idx):
      x, y, _ = batch
      y_hat = self.forward(x)
      y_hat = torch.nn.functional.softmax(y_hat, dim=1)
      _, predicted = torch.max(y_hat, 1)
      num = predicted.shape[0]
      correct = (predicted == y).float().sum()
      self.validation_step_outputs.append((num, correct))
      return num, correct
  \<close>
\<close>

definition validation_step ::
  "('x \<Rightarrow> nat) \<Rightarrow> classifier \<Rightarrow> ('x \<times> nat) list \<Rightarrow> classifier" where
  "validation_step classify self batch =
     (let x = map fst batch;
          y = map snd batch;
          predicted = map classify x;
          num = length predicted;
          correct = real (length (filter (\<lambda>(p, t). p = t) (zip predicted y)))
      in self\<lparr>validation_step_outputs := validation_step_outputs self @ [(num, correct)]\<rparr>)"

text \<open>
  \<^verbatim>\<open>
  def on_validation_epoch_end(self):
      if self.validation_step_outputs:
          total_num = 0
          total_correct = 0
          for num, correct in self.validation_step_outputs:
              total_num += num
              total_correct += correct
          acc = total_correct / total_num
          self.log("val_acc", acc, on_epoch=True, prog_bar=True)
          self.validation_step_outputs.clear()
  \<close>
  The \<^verbatim>\<open>for\<close> loop is \<open>accumulate\<close>, started at \<open>(0, 0)\<close>.
\<close>

fun accumulate :: "nat \<times> real \<Rightarrow> (nat \<times> real) list \<Rightarrow> nat \<times> real" where
  "accumulate (total_num, total_correct) [] = (total_num, total_correct)"
| "accumulate (total_num, total_correct) ((num, correct) # rest) =
     accumulate (total_num + num, total_correct + correct) rest"

definition on_validation_epoch_end :: "classifier \<Rightarrow> classifier" where
  "on_validation_epoch_end self =
     (if validation_step_outputs self \<noteq> [] then
        (case accumulate (0, 0) (validation_step_outputs self) of
           (total_num, total_correct) \<Rightarrow>
             self\<lparr>logged := logged self @ [(''val_acc'', tensor_div total_correct total_num)],
                  validation_step_outputs := []\<rparr>)
      else self)"

text \<open>One validation epoch as the trainer drives it: every batch, then the hook.\<close>

definition validation_epoch ::
  "('x \<Rightarrow> nat) \<Rightarrow> classifier \<Rightarrow> ('x \<times> nat) list list \<Rightarrow> classifier" where
  "validation_epoch classify self batches =
     on_validation_epoch_end (foldl (validation_step classify) self batches)"

section \<open>The code of the notebooks as syntax\<close>

text \<open>
  Some claims are about what the code of the repository contains and in which order it
  calls the libraries, not about what a function computes. For those the code cells and
  the methods are kept as syntax trees, transcribed from the two notebooks: the calls, in
  the order in which Python evaluates them (arguments before the call they are passed
  to), and the control structure around them. Statements that make no call (assignments
  of constants, attribute assignments, tuple unpacking, subscripts, arithmetic) are left
  out; a comment is not a statement.
  \<^item> \<open>Import\<close>: an \<^verbatim>\<open>import\<close> of a module;
  \<^item> \<open>Call\<close>: a call that leaves the code of the repository (a library function, a
    method of a library object, a builtin), named by the text of the callee;
  \<^item> \<open>Invoke\<close>: a call of a function the repository defines, with the body of that
    function;
  \<^item> \<open>IfStmt\<close>, \<open>ForStmt\<close>, \<open>TryStmt\<close>: \<^verbatim>\<open>if\<close> (statement or conditional
    expression) with the text of the condition, \<^verbatim>\<open>for\<close> with the text of the iterable,
    \<^verbatim>\<open>try\<close> with its handler;
  \<^item> \<open>FunctionDef\<close>, \<open>ClassDef\<close>: a \<^verbatim>\<open>def\<close> with its body, a \<^verbatim>\<open>class\<close> with its
    base class and its body.
\<close>

datatype stmt =
    Import string
  | Call string
  | Invoke string "stmt list"
  | IfStmt string "stmt list" "stmt list"
  | ForStmt string "stmt list"
  | TryStmt "stmt list" "stmt list"
  | FunctionDef string "stmt list"
  | ClassDef string string "stmt list"

subsection \<open>The methods of the two LightningModule subclasses\<close>

definition MocoModel_init_code :: "stmt list" where
  "MocoModel_init_code =
     [Call ''super().__init__'',
      Call ''torchvision.models.mobilenet_v2'',
      Call ''mobilenet_v2.children'', Call ''list'',
      Call ''nn.AdaptiveAvgPool2d'', Call ''nn.Flatten'', Call ''nn.Linear'',
      Call ''nn.Sequential'',
      Call ''MoCoProjectionHead'',
      Call ''copy.deepcopy'',
      Call ''copy.deepcopy'',
      Call ''deactivate_requires_grad'',
      Call ''deactivate_requires_grad'',
      Call ''NTXentLoss'']"

definition MocoModel_training_step_code :: "stmt list" where
  "MocoModel_training_step_code =
     [Call ''update_momentum'',
      Call ''update_momentum'',
      Call ''self.backbone'', Call ''flatten'',
      Call ''self.projection_head'',
      Call ''batch_shuffle'',
      Call ''self.backbone_momentum'', Call ''flatten'',
      Call ''self.projection_head_momentum'',
      Call ''batch_unshuffle'',
      Call ''self.criterion'',
      Call ''self.log'']"

text \<open>
  Both classes define \<^verbatim>\<open>on_train_epoch_end\<close> and \<^verbatim>\<open>custom_histogram_weights\<close> with the
  same text:
  \<^verbatim>\<open>
  def on_train_epoch_end(self):
      self.custom_histogram_weights()

  def custom_histogram_weights(self):
      for name, params in self.named_parameters():
          self.logger.experiment.add_histogram(name, params, self.current_epoch)
  \<close>
\<close>

definition custom_histogram_weights_code :: "stmt list" where
  "custom_histogram_weights_code =
     [Call ''self.named_parameters'',
      ForStmt ''self.named_parameters()'' [Call ''self.logger.experiment.add_histogram'']]"

definition on_train_epoch_end_code :: "stmt list" where
  "on_train_epoch_end_code = [Invoke ''self.custom_histogram_weights'' custom_histogram_weights_code]"

definition MocoModel_configure_optimizers_code :: "stmt list" where
  "MocoModel_configure_optimizers_code =
     [Call ''self.parameters'', Call ''torch.optim.SGD'',
      Call ''torch.optim.lr_scheduler.CosineAnnealingLR'']"

definition Classifier_init_code :: "stmt list" where
  "Classifier_init_code =
     [Call ''super().__init__'',
      Call ''deactivate_requires_grad'',
      Call ''nn.Linear'',
      Call ''nn.CrossEntropyLoss'']"

definition Classifier_forward_code :: "stmt list" where
  "Classifier_forward_code = [Call ''self.backbone'', Call ''flatten'', Call ''self.fc'']"

definition Classifier_training_step_code :: "stmt list" where
  "Classifier_training_step_code =
     [Invoke ''self.forward'' Classifier_forward_code,
      Call ''self.criterion'',
      Call ''self.log'']"

definition Classifier_validation_step_code :: "stmt list" where
  "Classifier_validation_step_code =
     [Invoke ''self.forward'' Classifier_forward_code,
      Call ''torch.nn.functional.softmax'',
      Call ''torch.max'',
      Call ''float'', Call ''sum'',
      Call ''self.validation_step_outputs.append'']"

definition Classifier_on_validation_epoch_end_code :: "stmt list" where
  "Classifier_on_validation_epoch_end_code =
     [IfStmt ''self.validation_step_outputs''
        [ForStmt ''self.validation_step_outputs'' [],
         Call ''self.log'',
         Call ''self.validation_step_outputs.clear'']
        []]"

definition Classifier_configure_optimizers_code :: "stmt list" where
  "Classifier_configure_optimizers_code =
     [Call ''self.fc.parameters'', Call ''torch.optim.SGD'',
      Call ''torch.optim.lr_scheduler.CosineAnnealingLR'']"

definition MocoModel_class :: stmt where
  "MocoModel_class =
     ClassDef ''MocoModel'' ''pl.LightningModule''
       [FunctionDef ''__init__'' MocoModel_init_code,
        FunctionDef ''training_step'' MocoModel_training_step_code,
        FunctionDef ''on_train_epoch_end'' on_train_epoch_end_code,
        FunctionDef ''custom_histogram_weights'' custom_histogram_weights_code,
        FunctionDef ''configure_optimizers'' MocoModel_configure_optimizers_code]"

definition Classifier_class :: stmt where
  "Classifier_class =
     ClassDef ''Classifier'' ''pl.LightningModule''
       [FunctionDef ''__init__'' Classifier_init_code,
        FunctionDef ''forward'' Classifier_forward_code,
        FunctionDef ''training_step'' Classifier_training_step_code,
        FunctionDef ''on_train_epoch_end'' on_train_epoch_end_code,
        FunctionDef ''custom_histogram_weights'' custom_histogram_weights_code,
        FunctionDef ''validation_step'' Classifier_validation_step_code,
        FunctionDef ''on_validation_epoch_end'' Classifier_on_validation_epoch_end_code,
        FunctionDef ''configure_optimizers'' Classifier_configure_optimizers_code]"

text \<open>
  The hook methods of the training framework that the two classes override, the ones
  the trainer calls: training step, validation step, optimizer configuration and the
  epoch-end hooks.
\<close>

definition framework_hooks :: "(string \<times> stmt list) list" where
  "framework_hooks =
     [(''MocoModel.training_step'', MocoModel_training_step_code),
      (''MocoModel.on_train_epoch_end'', on_train_epoch_end_code),
      (''MocoModel.configure_optimizers'', MocoModel_configure_optimizers_code),
      (''Classifier.training_step'', Classifier_training_step_code),
      (''Classifier.on_train_epoch_end'', on_train_epoch_end_code),
      (''Classifier.validation_step'', Classifier_validation_step_code),
      (''Classifier.on_validation_epoch_end'', Classifier_on_validation_epoch_end_code),
      (''Classifier.configure_optimizers'', Classifier_configure_optimizers_code)]"

subsection \<open>The code cells of the MoCo notebook\<close>

text \<open>
  workspace/notebooks/MoCo\_cifar-10.ipynb, one list per code cell, in the order of the
  notebook. The two configuration cells hold assignments of constants only.
\<close>

definition moco_notebook :: "stmt list list" where
  "moco_notebook =
     [[Import ''copy'', Import ''pytorch_lightning'', Import ''torch'', Import ''torch.nn'',
       Import ''torchvision'', Import ''lightly.data'', Import ''lightly.loss'',
       Import ''lightly.models.modules.heads'', Import ''lightly.models.utils'',
       Import ''lightly.transforms''],
      [],
      [],
      [Call ''pl.seed_everything''],
      [Call ''MoCoV2Transform''],
      [Call ''torchvision.transforms.RandomCrop'',
       Call ''torchvision.transforms.RandomHorizontalFlip'',
       Call ''torchvision.transforms.ToTensor'',
       Call ''torchvision.transforms.Normalize'',
       Call ''torchvision.transforms.Compose'',
       Call ''torchvision.transforms.Resize'',
       Call ''torchvision.transforms.ToTensor'',
       Call ''torchvision.transforms.Normalize'',
       Call ''torchvision.transforms.Compose'',
       Call ''LightlyDataset'',
       Call ''LightlyDataset'',
       Call ''LightlyDataset''],
      [Call ''torch.utils.data.DataLoader'',
       Call ''torch.utils.data.DataLoader'',
       Call ''torch.utils.data.DataLoader''],
      [MocoModel_class],
      [Classifier_class],
      [Invoke ''MocoModel'' MocoModel_init_code,
       Call ''pl.Trainer'',
       Call ''trainer.fit''],
      [Call ''model.eval'',
       Invoke ''Classifier'' Classifier_init_code,
       Call ''pl.Trainer'',
       Call ''trainer.fit'']]"

subsection \<open>The code cells of the SimCLR notebook\<close>

text \<open>
  The notebook "Pre-train a Detectron2 Backbone with Lightly" (src/unnamed/part\_000),
  one list per code cell. The first and the last code cell hold a commented-out shell
  command only.
\<close>

definition SelectStage_init_code :: "stmt list" where
  "SelectStage_init_code = [Call ''super().__init__'']"

definition simclr_training_loop :: stmt where
  "simclr_training_loop =
     ForStmt ''range(max_epochs)''
       [ForStmt ''dataloader_train_simclr''
          [Call ''x0.to'',
           Call ''x1.to'',
           Call ''simclr_backbone'', Call ''flatten'', Call ''projection_head'',
           Call ''simclr_backbone'', Call ''flatten'', Call ''projection_head'',
           Call ''criterion'',
           Call ''loss.backward'',
           Call ''optimizer.step'',
           Call ''optimizer.zero_grad'',
           Call ''loss.detach'', Call ''cpu'', Call ''item'', Call ''len''],
        Call ''print'']"

definition simclr_notebook :: "stmt list list" where
  "simclr_notebook =
     [[],
      [Import ''torch'', Import ''detectron2'', Import ''detectron2.checkpoint'',
       Import ''lightly.data'', Import ''lightly.loss'', Import ''lightly.models.modules'',
       Import ''lightly.transforms''],
      [Call ''torch.cuda.is_available'', IfStmt ''torch.cuda.is_available()'' [] []],
      [],
      [ClassDef ''SelectStage'' ''torch.nn.Module''
         [FunctionDef ''__init__'' SelectStage_init_code,
          FunctionDef ''forward'' []]],
      [Call ''config.get_cfg'',
       Call ''cfg.merge_from_file''],
      [Call ''modeling.build_model'',
       Invoke ''SelectStage'' SelectStage_init_code,
       Call ''torch.nn.AdaptiveAvgPool2d'',
       Call ''torch.nn.Sequential'', Call ''to''],
      [Call ''SimCLRProjectionHead'', Call ''to''],
      [Call ''SimCLRTransform'',
       Call ''LightlyDataset'',
       Call ''torch.utils.data.DataLoader''],
      [Call ''NTXentLoss'',
       Call ''simclr_backbone.parameters'', Call ''list'',
       Call ''projection_head.parameters'', Call ''list'',
       Call ''torch.optim.Adam'',
       Call ''range'',
       simclr_training_loop],
      [Call ''DetectionCheckpointer'',
       Call ''checkpointer.save''],
      []]"

text \<open>
  Every operation the repository defines: the code cells of the two notebooks, and the
  bodies of the methods of its three classes.
\<close>

definition repository_operations :: "stmt list list" where
  "repository_operations =
     moco_notebook @ simclr_notebook @
     [MocoModel_init_code, MocoModel_training_step_code, on_train_epoch_end_code,
      custom_histogram_weights_code, MocoModel_configure_optimizers_code,
      Classifier_init_code, Classifier_forward_code, Classifier_training_step_code,
      Classifier_validation_step_code, Classifier_on_validation_epoch_end_code,
      Classifier_configure_optimizers_code, SelectStage_init_code]"

subsection \<open>What a piece of code contains\<close>

text \<open>
  No \<^verbatim>\<open>try\<close>, no \<^verbatim>\<open>if\<close>, no loop: anywhere in the statement, in the functions it
  defines and in the functions of the repository it calls.
\<close>

fun try_free :: "stmt \<Rightarrow> bool" where
  "try_free (Import m) = True"
| "try_free (Call f) = True"
| "try_free (Invoke f body) = list_all try_free body"
| "try_free (IfStmt c yes no) = (list_all try_free yes \<and> list_all try_free no)"
| "try_free (ForStmt c body) = list_all try_free body"
| "try_free (TryStmt body handler) = False"
| "try_free (FunctionDef f body) = list_all try_free body"
| "try_free (ClassDef c base body) = list_all try_free body"

fun branch_free :: "stmt \<Rightarrow> bool" where
  "branch_free (Import m) = True"
| "branch_free (Call f) = True"
| "branch_free (Invoke f body) = list_all branch_free body"
| "branch_free (IfStmt c yes no) = False"
| "branch_free (ForStmt c body) = list_all branch_free body"
| "branch_free (TryStmt body handler) = (list_all branch_free body \<and> list_all branch_free handler)"
| "branch_free (FunctionDef f body) = list_all branch_free body"
| "branch_free (ClassDef c base body) = list_all branch_free body"

fun loop_free :: "stmt \<Rightarrow> bool" where
  "loop_free (Import m) = True"
| "loop_free (Call f) = True"
| "loop_free (Invoke f body) = list_all loop_free body"
| "loop_free (IfStmt c yes no) = (list_all loop_free yes \<and> list_all loop_free no)"
| "loop_free (ForStmt c body) = False"
| "loop_free (TryStmt body handler) = (list_all loop_free body \<and> list_all loop_free handler)"
| "loop_free (FunctionDef f body) = list_all loop_free body"
| "loop_free (ClassDef c base body) = list_all loop_free body"

definition straight_line :: "stmt list \<Rightarrow> bool" where
  "straight_line body \<longleftrightarrow>
     list_all branch_free body \<and> list_all loop_free body \<and> list_all try_free body"

subsection \<open>Running a piece of code\<close>

text \<open>
  What a run does is the sequence of calls it makes into the libraries. The libraries
  are not modelled: a \<open>world\<close> says, given the calls made so far, whether the next call
  raises (and which exception), whether a condition holds, and how many items an
  iterable yields. Fetching the next item of an iterable is a call of its own (a
  dataloader reads files there) and may raise. A \<^verbatim>\<open>def\<close> or a \<^verbatim>\<open>class\<close> statement
  makes no call. The trace keeps the call that raised as its last entry.
\<close>

datatype outcome = Done | Raised string

record world =
  raises :: "string \<Rightarrow> string list \<Rightarrow> string option"
  holds :: "string \<Rightarrow> string list \<Rightarrow> bool"
  iterations :: "string \<Rightarrow> string list \<Rightarrow> nat"

definition call :: "world \<Rightarrow> string \<Rightarrow> string list \<Rightarrow> outcome \<times> string list" where
  "call w f tr =
     (case raises w f tr of None \<Rightarrow> (Done, tr @ [f]) | Some e \<Rightarrow> (Raised e, tr @ [f]))"

fun iterate ::
  "nat \<Rightarrow> (string list \<Rightarrow> outcome \<times> string list) \<Rightarrow> string list \<Rightarrow> outcome \<times> string list" where
  "iterate 0 body tr = (Done, tr)"
| "iterate (Suc n) body tr =
     (case body tr of (Done, tr') \<Rightarrow> iterate n body tr' | (Raised e, tr') \<Rightarrow> (Raised e, tr'))"

fun exec :: "world \<Rightarrow> stmt \<Rightarrow> string list \<Rightarrow> outcome \<times> string list"
and exec_list :: "world \<Rightarrow> stmt list \<Rightarrow> string list \<Rightarrow> outcome \<times> string list" where
  "exec w (Import m) tr = call w (''import '' @ m) tr"
| "exec w (Call f) tr = call w f tr"
| "exec w (Invoke f body) tr = exec_list w body tr"
| "exec w (IfStmt c yes no) tr =
     (if holds w c tr then exec_list w yes tr else exec_list w no tr)"
| "exec w (ForStmt c body) tr =
     iterate (iterations w c tr)
       (\<lambda>t. case call w (''next '' @ c) t of
               (Done, t') \<Rightarrow> exec_list w body t'
             | (Raised e, t') \<Rightarrow> (Raised e, t')) tr"
| "exec w (TryStmt body handler) tr =
     (case exec_list w body tr of
        (Done, tr') \<Rightarrow> (Done, tr')
      | (Raised e, tr') \<Rightarrow> exec_list w handler tr')"
| "exec w (FunctionDef f body) tr = (Done, tr)"
| "exec w (ClassDef c base body) tr = (Done, tr)"
| "exec_list w [] tr = (Done, tr)"
| "exec_list w (s # ss) tr =
     (case exec w s tr of
        (Done, tr') \<Rightarrow> exec_list w ss tr'
      | (Raised e, tr') \<Rightarrow> (Raised e, tr'))"

text \<open>
  A run of a whole notebook: its code cells from top to bottom; a cell that raises
  ends the run.
\<close>

definition run_notebook :: "world \<Rightarrow> stmt list list \<Rightarrow> outcome \<times> string list" where
  "run_notebook w cells = exec_list w (concat cells) []"

text \<open>
  An exception that nothing catches: the calls of the run, made one after the other,
  stop at the first one that raises, and its exception is the outcome. \<open>run_calls\<close> is
  that reference behaviour, and a result is \<open>uncaught\<close> when it is the result of
  \<open>run_calls\<close> on the calls that were made.
\<close>

fun run_calls :: "world \<Rightarrow> string list \<Rightarrow> string list \<Rightarrow> outcome \<times> string list" where
  "run_calls w tr [] = (Done, tr)"
| "run_calls w tr (f # fs) =
     (case raises w f tr of
        None \<Rightarrow> run_calls w (tr @ [f]) fs
      | Some e \<Rightarrow> (Raised e, tr @ [f]))"

definition uncaught :: "world \<Rightarrow> string list \<Rightarrow> outcome \<times> string list \<Rightarrow> bool" where
  "uncaught w tr result \<longleftrightarrow> (\<exists>calls. snd result = tr @ calls \<and> run_calls w tr calls = result)"

text \<open>The calls a piece of code can make, read off its text.\<close>

fun calls_of :: "stmt \<Rightarrow> string list" where
  "calls_of (Import m) = [''import '' @ m]"
| "calls_of (Call f) = [f]"
| "calls_of (Invoke f body) = concat (map calls_of body)"
| "calls_of (IfStmt c yes no) = concat (map calls_of yes) @ concat (map calls_of no)"
| "calls_of (ForStmt c body) = (''next '' @ c) # concat (map calls_of body)"
| "calls_of (TryStmt body handler) = concat (map calls_of body) @ concat (map calls_of handler)"
| "calls_of (FunctionDef f body) = []"
| "calls_of (ClassDef c base body) = []"

subsection \<open>The steps of a notebook\<close>

text \<open>
  The steps the specification names, and the two it does not: building the model with
  the model builder of the library, and a training loop written out in the notebook
  (recognised by the notebook itself calling \<^verbatim>\<open>optimizer.step\<close>). A notebook's steps
  are read off its text from top to bottom, class bodies included, each step at its
  first occurrence.
\<close>

datatype step =
    ConstructDataset
  | ConstructDataloader
  | SubclassFrameworkModel
  | BuildLibraryModel
  | ConstructOptimizer
  | ConstructScheduler
  | TrainerFit
  | HandWrittenLoop
  | SaveCheckpoint

definition step_of_call :: "string \<Rightarrow> step option" where
  "step_of_call f =
     (if f = ''LightlyDataset'' then Some ConstructDataset
      else if f = ''torch.utils.data.DataLoader'' then Some ConstructDataloader
      else if f = ''modeling.build_model'' then Some BuildLibraryModel
      else if f = ''torch.optim.SGD'' \<or> f = ''torch.optim.Adam'' then Some ConstructOptimizer
      else if f = ''torch.optim.lr_scheduler.CosineAnnealingLR'' then Some ConstructScheduler
      else if f = ''trainer.fit'' then Some TrainerFit
      else if f = ''optimizer.step'' then Some HandWrittenLoop
      else if f = ''checkpointer.save'' then Some SaveCheckpoint
      else None)"

fun steps_of :: "stmt \<Rightarrow> step list" where
  "steps_of (Import m) = []"
| "steps_of (Call f) = (case step_of_call f of Some s \<Rightarrow> [s] | None \<Rightarrow> [])"
| "steps_of (Invoke f body) = []"
| "steps_of (IfStmt c yes no) = concat (map steps_of yes) @ concat (map steps_of no)"
| "steps_of (ForStmt c body) = concat (map steps_of body)"
| "steps_of (TryStmt body handler) = concat (map steps_of body) @ concat (map steps_of handler)"
| "steps_of (FunctionDef f body) = concat (map steps_of body)"
| "steps_of (ClassDef c base body) =
     (if base = ''pl.LightningModule'' then [SubclassFrameworkModel] else [])
     @ concat (map steps_of body)"

fun first_occurrences :: "'a list \<Rightarrow> 'a list \<Rightarrow> 'a list" where
  "first_occurrences seen [] = []"
| "first_occurrences seen (x # xs) =
     (if x \<in> set seen then first_occurrences seen xs else x # first_occurrences (x # seen) xs)"

definition notebook_steps :: "stmt list list \<Rightarrow> step list" where
  "notebook_steps cells = first_occurrences [] (concat (map steps_of (concat cells)))"

text \<open>The sequence of steps the specification gives for both notebooks.\<close>

definition specified_steps :: "step list" where
  "specified_steps =
     [ConstructDataset, ConstructDataloader, SubclassFrameworkModel,
      ConstructOptimizer, ConstructScheduler, TrainerFit, SaveCheckpoint]"

text \<open>
  The checkpoint is written by \<^verbatim>\<open>checkpointer.save\<close>, the one call in the two notebooks
  that writes a model file. A run that completes writes the checkpoint once, after
  training, when that call is made exactly once and is the last call of the run.
\<close>

definition writes_checkpoint_once_at_end :: "string list \<Rightarrow> bool" where
  "writes_checkpoint_once_at_end tr \<longleftrightarrow>
     tr \<noteq> [] \<and> last tr = ''checkpointer.save'' \<and> ''checkpointer.save'' \<notin> set (butlast tr)"

text \<open>A world in which no call raises, every condition holds and every loop runs twice.\<close>

definition plain_world :: world where
  "plain_world = \<lparr>raises = \<lambda>f tr. None, holds = \<lambda>c tr. True, iterations = \<lambda>c tr. 2\<rparr>"

section \<open>Properties of the validation bookkeeping\<close>

lemma accumulate_sums:
  "accumulate (n, c) outs = (n + sum_list (map fst outs), c + sum_list (map snd outs))"
  by (induction outs arbitrary: n c) auto

lemma validation_steps_outputs:
  "validation_step_outputs (foldl (validation_step classify) self batches) =
     validation_step_outputs self @
     map (\<lambda>batch. (length batch,
            real (length (filter (\<lambda>(p, t). p = t)
                            (zip (map classify (map fst batch)) (map snd batch))))))
       batches"
  by (induction batches arbitrary: self) (simp_all add: validation_step_def Let_def)

lemma validation_steps_logged:
  "logged (foldl (validation_step classify) self batches) = logged self"
  by (induction batches arbitrary: self) (simp_all add: validation_step_def Let_def)

lemma sum_list_nums_pos:
  "outs \<noteq> [] \<Longrightarrow> \<forall>p \<in> set outs. 0 < fst p \<Longrightarrow> 0 < sum_list (map fst outs)"
  for outs :: "(nat \<times> real) list"
  by (cases outs) auto

text \<open>
  C6. \<^verbatim>\<open>Classifier.on_validation_epoch_end\<close> never divides by zero. Every \<^verbatim>\<open>num\<close> that
  \<^verbatim>\<open>validation_step\<close> accumulates from a non-empty batch is positive; the hook leaves
  the object as it is when the list is empty (no quotient is computed); when the list
  is non-empty the divisor \<^verbatim>\<open>total_num\<close> is positive and the logged accuracy is the
  finite quotient \<^verbatim>\<open>total_correct / total_num\<close>; and after every call of the hook the
  list is empty.
\<close>

theorem on_validation_epoch_end_no_zero_division:
  assumes batches: "\<forall>batch \<in> set batches. batch \<noteq> []"
    and start: "\<forall>(num, correct) \<in> set (validation_step_outputs self). 0 < num"
  shows "(\<forall>(num, correct) \<in>
            set (validation_step_outputs (foldl (validation_step classify) self batches)). 0 < num)
       \<and> (\<forall>s. validation_step_outputs s = [] \<longrightarrow> on_validation_epoch_end s = s)
       \<and> (validation_step_outputs (foldl (validation_step classify) self batches) \<noteq> [] \<longrightarrow>
            (\<exists>total_num total_correct. 0 < total_num
               \<and> accumulate (0, 0)
                     (validation_step_outputs (foldl (validation_step classify) self batches))
                   = (total_num, total_correct)
               \<and> logged (validation_epoch classify self batches)
                   = logged self @ [(''val_acc'', Finite (total_correct / real total_num))]))
       \<and> (\<forall>s. validation_step_outputs (on_validation_epoch_end s) = [])"
proof -
  let ?st = "foldl (validation_step classify) self batches"
  have pos: "\<forall>p \<in> set (validation_step_outputs ?st). 0 < fst p"
    using batches start by (auto simp: validation_steps_outputs)
  have a: "\<forall>(num, correct) \<in> set (validation_step_outputs ?st). 0 < num"
    using pos by auto
  have b: "\<forall>s. validation_step_outputs s = [] \<longrightarrow> on_validation_epoch_end s = s"
    by (simp add: on_validation_epoch_end_def)
  have d: "\<forall>s. validation_step_outputs (on_validation_epoch_end s) = []"
    by (simp add: on_validation_epoch_end_def split: prod.splits)
  have c: "validation_step_outputs ?st \<noteq> [] \<longrightarrow>
            (\<exists>total_num total_correct. 0 < total_num
               \<and> accumulate (0, 0) (validation_step_outputs ?st) = (total_num, total_correct)
               \<and> logged (validation_epoch classify self batches)
                   = logged self @ [(''val_acc'', Finite (total_correct / real total_num))])"
  proof
    assume ne: "validation_step_outputs ?st \<noteq> []"
    obtain tn tc where acc: "accumulate (0, 0) (validation_step_outputs ?st) = (tn, tc)"
      by (cases "accumulate (0, 0) (validation_step_outputs ?st)")
    have "tn = sum_list (map fst (validation_step_outputs ?st))"
      using acc by (simp add: accumulate_sums)
    then have tn: "0 < tn"
      using sum_list_nums_pos [OF ne pos] by simp
    have "logged (validation_epoch classify self batches)
            = logged self @ [(''val_acc'', Finite (tc / real tn))]"
      using ne acc tn
      by (simp add: validation_epoch_def on_validation_epoch_end_def tensor_div_def
            validation_steps_logged)
    with tn acc show "\<exists>total_num total_correct. 0 < total_num
               \<and> accumulate (0, 0) (validation_step_outputs ?st) = (total_num, total_correct)
               \<and> logged (validation_epoch classify self batches)
                   = logged self @ [(''val_acc'', Finite (total_correct / real total_num))]"
      by blast
  qed
  from a b c d show ?thesis by blast
qed

text \<open>
  Two validation batches, of two images and of one, with the identity as classifier:
  two of the three predictions are right.
\<close>

theorem on_validation_epoch_end_no_zero_division_witness:
  "logged (validation_epoch (\<lambda>x. x)
             \<lparr>backbone = [], fc = [], validation_step_outputs = [], logged = []\<rparr>
             [[(1, 1), (2, 0)], [(0, 0)]])
     = [(''val_acc'', Finite (2 / 3))]
   \<and> validation_step_outputs (validation_epoch (\<lambda>x. x)
             \<lparr>backbone = [], fc = [], validation_step_outputs = [], logged = []\<rparr>
             [[(1, 1), (2, 0)], [(0, 0)]])
     = []"
proof -
  let ?self = "\<lparr>backbone = [], fc = [], validation_step_outputs = [], logged = []\<rparr>"
  let ?batches = "[[(1, 1), (2, 0)], [(0, 0)]] :: (nat \<times> nat) list list"
  have h1: "\<forall>batch \<in> set ?batches. batch \<noteq> []"
    by simp
  have h2: "\<forall>(num, correct) \<in> set (validation_step_outputs ?self). 0 < num"
    by simp
  have st: "validation_step_outputs (foldl (validation_step (\<lambda>x. x)) ?self ?batches)
              = [(2, 1), (1, 1)]"
    by (simp add: validation_step_def)
  note main = on_validation_epoch_end_no_zero_division [OF h1 h2, of "\<lambda>x. x"]
  from main have cleared: "\<forall>s. validation_step_outputs (on_validation_epoch_end s) = []"
    by blast
  from main have "validation_step_outputs (foldl (validation_step (\<lambda>x. x)) ?self ?batches) \<noteq> [] \<longrightarrow>
      (\<exists>total_num total_correct. 0 < total_num
         \<and> accumulate (0, 0) (validation_step_outputs (foldl (validation_step (\<lambda>x. x)) ?self ?batches))
             = (total_num, total_correct)
         \<and> logged (validation_epoch (\<lambda>x. x) ?self ?batches)
             = logged ?self @ [(''val_acc'', Finite (total_correct / real total_num))])"
    by blast
  then obtain total_num total_correct where
    acc: "accumulate (0, 0) [(2, 1), (1, 1)] = (total_num, total_correct)" and
    log: "logged (validation_epoch (\<lambda>x. x) ?self ?batches)
            = logged ?self @ [(''val_acc'', Finite (total_correct / real total_num))]"
    unfolding st by auto
  from acc have "total_num = 3" and "total_correct = 2"
    by simp_all
  with log have "logged (validation_epoch (\<lambda>x. x) ?self ?batches) = [(''val_acc'', Finite (2 / 3))]"
    by simp
  moreover have "validation_step_outputs (validation_epoch (\<lambda>x. x) ?self ?batches) = []"
    using cleared by (simp add: validation_epoch_def)
  ultimately show ?thesis
    by blast
qed

section \<open>Properties of the parameter store\<close>

lemma params_modify [simp]:
  "params (modify a f h) b = (if b = a then map_option f (params h a) else params h b)"
  by (simp add: modify_def)

lemma fresh_modify [simp]: "fresh (modify a f h) = fresh h"
  by (simp add: modify_def)

lemma value_of_cong: "params h a = params h' a \<Longrightarrow> value_of h a = value_of h' a"
  by (simp add: value_of_def)

subsection \<open>Constructors\<close>

lemma new_module_spec:
  "new_module ts h = (as, h') \<Longrightarrow>
     as = [fresh h ..< fresh h + length ts]
   \<and> fresh h' = fresh h + length ts
   \<and> (\<forall>a. a < fresh h \<or> fresh h + length ts \<le> a \<longrightarrow> params h' a = params h a)
   \<and> (\<forall>i < length ts. params h' (fresh h + i)
          = Some \<lparr>data = ts ! i, requires_grad = True, grad = None\<rparr>)"
proof (induction ts arbitrary: h as h')
  case Nil
  then show ?case by simp
next
  case (Cons t ts)
  let ?h1 = "h\<lparr>params := (params h)(fresh h \<mapsto> \<lparr>data = t, requires_grad = True, grad = None\<rparr>),
               fresh := Suc (fresh h)\<rparr>"
  obtain bs where rec: "new_module ts ?h1 = (bs, h')" and as: "as = fresh h # bs"
    using Cons.prems by (auto split: prod.splits)
  note IH = Cons.IH [OF rec]
  have 1: "as = [fresh h ..< fresh h + length (t # ts)]"
    using IH as by (simp add: upt_rec)
  have 2: "fresh h' = fresh h + length (t # ts)"
    using IH by simp
  have 3: "\<forall>a. a < fresh h \<or> fresh h + length (t # ts) \<le> a \<longrightarrow> params h' a = params h a"
    using IH by auto
  have 4: "\<forall>i < length (t # ts). params h' (fresh h + i)
          = Some \<lparr>data = (t # ts) ! i, requires_grad = True, grad = None\<rparr>"
  proof (intro allI impI)
    fix i assume i: "i < length (t # ts)"
    show "params h' (fresh h + i) = Some \<lparr>data = (t # ts) ! i, requires_grad = True, grad = None\<rparr>"
    proof (cases i)
      case 0
      then show ?thesis using IH by simp
    next
      case (Suc j)
      then have "j < length ts" using i by simp
      then have "params h' (fresh ?h1 + j) = Some \<lparr>data = ts ! j, requires_grad = True, grad = None\<rparr>"
        using IH by blast
      then show ?thesis using Suc by simp
    qed
  qed
  from 1 2 3 4 show ?case by blast
qed

lemma deepcopy_spec:
  "deepcopy m h = (bs, h') \<Longrightarrow> \<forall>a \<in> set m. a < fresh h \<Longrightarrow>
     bs = [fresh h ..< fresh h + length m]
   \<and> fresh h' = fresh h + length m
   \<and> (\<forall>a. a < fresh h \<or> fresh h + length m \<le> a \<longrightarrow> params h' a = params h a)
   \<and> (\<forall>i < length m. params h' (fresh h + i) = params h (m ! i))"
proof (induction m arbitrary: h bs h')
  case Nil
  then show ?case by simp
next
  case (Cons a m)
  let ?h1 = "h\<lparr>params := (params h)(fresh h := params h a), fresh := Suc (fresh h)\<rparr>"
  obtain cs where rec: "deepcopy m ?h1 = (cs, h')" and bs: "bs = fresh h # cs"
    using Cons.prems(1) by (auto split: prod.splits)
  have below: "\<forall>a \<in> set m. a < fresh ?h1"
    using Cons.prems(2) by auto
  note IH = Cons.IH [OF rec below]
  have 1: "bs = [fresh h ..< fresh h + length (a # m)]"
    using IH bs by (simp add: upt_rec)
  have 2: "fresh h' = fresh h + length (a # m)"
    using IH by simp
  have 3: "\<forall>b. b < fresh h \<or> fresh h + length (a # m) \<le> b \<longrightarrow> params h' b = params h b"
    using IH by auto
  have 4: "\<forall>i < length (a # m). params h' (fresh h + i) = params h ((a # m) ! i)"
  proof (intro allI impI)
    fix i assume i: "i < length (a # m)"
    show "params h' (fresh h + i) = params h ((a # m) ! i)"
    proof (cases i)
      case 0
      then show ?thesis using IH by simp
    next
      case (Suc j)
      then have j: "j < length m" using i by simp
      then have "params h' (fresh ?h1 + j) = params ?h1 (m ! j)"
        using IH by blast
      moreover have "m ! j < fresh h"
        using Cons.prems(2) j by simp
      ultimately show ?thesis using Suc by simp
    qed
  qed
  from 1 2 3 4 show ?case by blast
qed

subsection \<open>Loops over parameter lists\<close>

lemma deactivate_requires_grad_params:
  "params (deactivate_requires_grad as h) a =
     (if a \<in> set as then map_option (\<lambda>p. p\<lparr>requires_grad := False\<rparr>) (params h a)
      else params h a)"
  by (induction as arbitrary: h) (auto simp: option.map_comp comp_def)

lemma deactivate_requires_grad_fresh [simp]:
  "fresh (deactivate_requires_grad as h) = fresh h"
  by (induction as arbitrary: h) auto

lemma sweep_unchanged:
  assumes "\<And>b. b \<in> set as \<Longrightarrow> b = a \<Longrightarrow> map_option (F b) (params h a) = params h a"
  shows "params (foldl (\<lambda>h b. modify b (F b) h) h as) a = params h a"
  using assms
proof (induction as arbitrary: h)
  case Nil
  then show ?case by simp
next
  case (Cons c as)
  let ?h1 = "modify c (F c) h"
  have same: "params ?h1 a = params h a"
    using Cons.prems [of c] by (cases "c = a") simp_all
  have "params (foldl (\<lambda>h b. modify b (F b) h) ?h1 as) a = params ?h1 a"
  proof (rule Cons.IH)
    fix b assume "b \<in> set as" "b = a"
    then show "map_option (F b) (params ?h1 a) = params ?h1 a"
      using Cons.prems [of b] same by simp
  qed
  with same show ?case by simp
qed

lemma zero_grad_sweep:
  "zero_grad it as h =
     foldl (\<lambda>h b. modify b (\<lambda>p. p\<lparr>grad := (case grad p of None \<Rightarrow> None
                                   | Some g \<Rightarrow> if set_to_none it then None
                                              else Some (map (\<lambda>_. 0) g))\<rparr>) h) h as"
  by (induction as arbitrary: h) simp_all

lemma backward_sweep:
  "backward it as h =
     foldl (\<lambda>h b. modify b (\<lambda>p. if requires_grad p
                       then p\<lparr>grad := (case grad p of None \<Rightarrow> Some (gradient it b)
                                         | Some g \<Rightarrow> Some (map2 (+) g (gradient it b)))\<rparr>
                       else p) h) h as"
  by (induction as arbitrary: h) simp_all

lemma optimizer_step_sweep:
  "optimizer_step it as h =
     foldl (\<lambda>h b. modify b (\<lambda>p. case grad p of None \<Rightarrow> p
                                    | Some g \<Rightarrow> p\<lparr>data := rule it b (data p) g\<rparr>) h) h as"
  by (induction as arbitrary: h) simp_all

lemma zero_grad_keeps:
  "params h a = Some p \<Longrightarrow> a \<in> set as \<longrightarrow> grad p = None \<Longrightarrow>
   params (zero_grad it as h) a = Some p"
  unfolding zero_grad_sweep by (subst sweep_unchanged) auto

lemma backward_keeps:
  "params h a = Some p \<Longrightarrow> a \<in> set as \<longrightarrow> \<not> requires_grad p \<Longrightarrow>
   params (backward it as h) a = Some p"
  unfolding backward_sweep by (subst sweep_unchanged) auto

lemma optimizer_step_keeps:
  "params h a = Some p \<Longrightarrow> a \<in> set as \<longrightarrow> grad p = None \<Longrightarrow>
   params (optimizer_step it as h) a = Some p"
  unfolding optimizer_step_sweep by (subst sweep_unchanged) auto

lemma zero_grad_None: "params h a = None \<Longrightarrow> params (zero_grad it as h) a = None"
  unfolding zero_grad_sweep by (subst sweep_unchanged) auto

lemma backward_None: "params h a = None \<Longrightarrow> params (backward it as h) a = None"
  unfolding backward_sweep by (subst sweep_unchanged) auto

lemma optimizer_step_None: "params h a = None \<Longrightarrow> params (optimizer_step it as h) a = None"
  unfolding optimizer_step_sweep by (subst sweep_unchanged) auto

lemma zero_grad_frame: "a \<notin> set as \<Longrightarrow> params (zero_grad it as h) a = params h a"
  unfolding zero_grad_sweep by (rule sweep_unchanged) simp

lemma backward_frame: "a \<notin> set as \<Longrightarrow> params (backward it as h) a = params h a"
  unfolding backward_sweep by (rule sweep_unchanged) simp

lemma optimizer_step_frame: "a \<notin> set as \<Longrightarrow> params (optimizer_step it as h) a = params h a"
  unfolding optimizer_step_sweep by (rule sweep_unchanged) simp

lemma zero_grad_fresh [simp]: "fresh (zero_grad it as h) = fresh h"
  by (induction as arbitrary: h) simp_all

lemma backward_fresh [simp]: "fresh (backward it as h) = fresh h"
  by (induction as arbitrary: h) simp_all

lemma optimizer_step_fresh [simp]: "fresh (optimizer_step it as h) = fresh h"
  by (induction as arbitrary: h) simp_all

section \<open>Training the classifier leaves the backbone alone\<close>

lemma classifier_iteration_frame:
  assumes fr: "\<forall>b \<in> set (classifier.backbone self). \<forall>p. params h b = Some p \<longrightarrow> \<not> requires_grad p"
    and a: "a \<notin> set (fc self)"
  shows "params (classifier_iteration self h it) a = params h a"
proof -
  let ?h1 = "zero_grad it (fc self) h"
  let ?h2 = "backward it (classifier.backbone self @ fc self) ?h1"
  have 1: "params ?h1 a = params h a"
    using a by (rule zero_grad_frame)
  have 2: "params ?h2 a = params ?h1 a"
  proof (cases "params ?h1 a")
    case None
    then show ?thesis by (simp add: backward_None)
  next
    case (Some p)
    have "a \<in> set (classifier.backbone self @ fc self) \<longrightarrow> \<not> requires_grad p"
      using a fr Some 1 by auto
    with Some show ?thesis by (simp add: backward_keeps)
  qed
  have 3: "params (optimizer_step it (fc self) ?h2) a = params ?h2 a"
    using a by (rule optimizer_step_frame)
  from 1 2 3 show ?thesis
    by (simp add: classifier_iteration_def Classifier_configure_optimizers_def
          Classifier_parameters_def)
qed

lemma classifier_fit_frame:
  assumes disj: "set (fc self) \<inter> set (classifier.backbone self) = {}"
    and fr: "\<forall>b \<in> set (classifier.backbone self). \<forall>p. params h b = Some p \<longrightarrow> \<not> requires_grad p"
    and a: "a \<notin> set (fc self)"
  shows "params (classifier_fit self h its) a = params h a"
  using fr
proof (induction its arbitrary: h)
  case Nil
  then show ?case by (simp add: classifier_fit_def)
next
  case (Cons it its)
  let ?h1 = "classifier_iteration self h it"
  have keep: "\<forall>b \<in> set (classifier.backbone self). params ?h1 b = params h b"
    using disj Cons.prems by (auto intro!: classifier_iteration_frame)
  then have "\<forall>b \<in> set (classifier.backbone self). \<forall>p. params ?h1 b = Some p \<longrightarrow> \<not> requires_grad p"
    using Cons.prems by simp
  then have "params (classifier_fit self ?h1 its) a = params ?h1 a"
    by (rule Cons.IH)
  moreover have "params ?h1 a = params h a"
    using Cons.prems a by (rule classifier_iteration_frame)
  ultimately show ?case by (simp add: classifier_fit_def)
qed

text \<open>
  C7. Training the \<^verbatim>\<open>Classifier\<close> leaves every parameter of its backbone unchanged.
  For a backbone whose parameters exist when the classifier is constructed:
  \<^verbatim>\<open>__init__\<close> deactivates the gradient requirement of every backbone parameter and
  keeps its value; \<^verbatim>\<open>configure_optimizers\<close> hands the optimizer the parameters of
  \<^verbatim>\<open>fc\<close> and no other, and those are not parameters of the backbone; and after any
  number of training iterations, whatever the gradients and the update rule, every
  parameter that is not one of \<^verbatim>\<open>fc\<close> is as it was after construction, so every
  backbone parameter still has the value it had before the classifier was built.
\<close>

theorem classifier_training_leaves_backbone:
  assumes allocated: "\<forall>a \<in> set bb. a < fresh h"
    and init: "Classifier_init bb fc_weight fc_bias h = (self, h1)"
  shows "classifier.backbone self = bb
       \<and> Classifier_configure_optimizers self = fc self
       \<and> set (fc self) \<inter> set bb = {}
       \<and> (\<forall>a \<in> set bb. \<forall>p. params h1 a = Some p \<longrightarrow> \<not> requires_grad p)
       \<and> (\<forall>a \<in> set bb. value_of h1 a = value_of h a)
       \<and> (\<forall>its a. a \<notin> set (fc self) \<longrightarrow> params (classifier_fit self h1 its) a = params h1 a)
       \<and> (\<forall>its. \<forall>a \<in> set bb. value_of (classifier_fit self h1 its) a = value_of h a)"
proof -
  let ?h0 = "deactivate_requires_grad bb h"
  obtain fcl where new: "new_module [fc_weight, fc_bias] ?h0 = (fcl, h1)"
    and self: "self = \<lparr>backbone = bb, fc = fcl, validation_step_outputs = [], logged = []\<rparr>"
    using init by (auto simp: Classifier_init_def split: prod.splits)
  note spec = new_module_spec [OF new]
  have fcl: "fcl = [fresh h ..< fresh h + 2]"
    using spec by simp
  have 1: "classifier.backbone self = bb" and fc: "fc self = fcl"
    using self by simp_all
  have 2: "Classifier_configure_optimizers self = fc self"
    by (simp add: Classifier_configure_optimizers_def)
  have 3: "set (fc self) \<inter> set bb = {}"
    using allocated fc fcl by auto
  have old: "\<forall>a \<in> set bb. params h1 a = params ?h0 a"
    using spec allocated by simp
  have 4: "\<forall>a \<in> set bb. \<forall>p. params h1 a = Some p \<longrightarrow> \<not> requires_grad p"
    using old by (auto simp: deactivate_requires_grad_params)
  have 5: "\<forall>a \<in> set bb. value_of h1 a = value_of h a"
    using old by (auto simp: value_of_def deactivate_requires_grad_params split: option.splits)
  have 6: "\<forall>its a. a \<notin> set (fc self) \<longrightarrow> params (classifier_fit self h1 its) a = params h1 a"
    using 3 4 1 by (auto intro!: classifier_fit_frame)
  have 7: "\<forall>its. \<forall>a \<in> set bb. value_of (classifier_fit self h1 its) a = value_of h a"
  proof (intro allI ballI)
    fix its a assume a: "a \<in> set bb"
    then have "a \<notin> set (fc self)" using 3 by auto
    then have "params (classifier_fit self h1 its) a = params h1 a" using 6 by blast
    then have "value_of (classifier_fit self h1 its) a = value_of h1 a" by (rule value_of_cong)
    with 5 a show "value_of (classifier_fit self h1 its) a = value_of h a" by simp
  qed
  from 1 2 3 4 5 6 7 show ?thesis by blast
qed

text \<open>
  A backbone of one parameter with value 5; one iteration with gradient 1 everywhere and
  the update \<open>data - grad\<close>: the backbone keeps 5, the weight and the bias of \<^verbatim>\<open>fc\<close>
  move from 3 and 4 to 2 and 3.
\<close>

theorem classifier_training_leaves_backbone_witness:
  "(case Classifier_init [0] [3] [4]
           \<lparr>params = (\<lambda>a. None)(0 := Some \<lparr>data = [5], requires_grad = True, grad = None\<rparr>),
            fresh = 1\<rparr> of
      (self, h1) \<Rightarrow>
        value_of (classifier_fit self h1
                    [\<lparr>gradient = \<lambda>a. [1], rule = \<lambda>a d g. map2 (-) d g, set_to_none = True\<rparr>]) 0
          = [5]
      \<and> map (value_of (classifier_fit self h1
                    [\<lparr>gradient = \<lambda>a. [1], rule = \<lambda>a d g. map2 (-) d g, set_to_none = True\<rparr>]))
            (fc self)
          = [[2], [3]])"
proof -
  let ?h = "\<lparr>params = (\<lambda>a. None)(0 := Some \<lparr>data = [5], requires_grad = True, grad = None\<rparr>),
             fresh = 1\<rparr> :: heap"
  let ?it = "\<lparr>gradient = \<lambda>a. [1], rule = \<lambda>a d g. map2 (-) d g, set_to_none = True\<rparr> :: iteration"
  obtain self h1 where init: "Classifier_init [0] [3] [4] ?h = (self, h1)"
    by (cases "Classifier_init [0] [3] [4] ?h")
  have allocated: "\<forall>a \<in> set [0]. a < fresh ?h"
    by simp
  from classifier_training_leaves_backbone [OF allocated init]
  have "\<forall>its. \<forall>a \<in> set [0]. value_of (classifier_fit self h1 its) a = value_of ?h a"
    by blast
  then have backbone: "value_of (classifier_fit self h1 [?it]) 0 = [5]"
    by (simp add: value_of_def)
  have self: "self = fst (Classifier_init [0] [3] [4] ?h)"
    and h1: "h1 = snd (Classifier_init [0] [3] [4] ?h)"
    using init by simp_all
  have "map (value_of (classifier_fit self h1 [?it])) (fc self) = [[2], [3]]"
    by (simp add: self h1 Classifier_init_def classifier_fit_def classifier_iteration_def
          Classifier_configure_optimizers_def Classifier_parameters_def value_of_def modify_def)
  with backbone show ?thesis
    unfolding init by simp
qed

section \<open>The momentum encoder\<close>

lemma update_momentum_frame:
  "a \<notin> set es \<Longrightarrow> params (update_momentum ps es m h) a = params h a"
  by (induction ps es m h rule: update_momentum.induct) simp_all

lemma update_momentum_nth:
  assumes "distinct es" "set ps \<inter> set es = {}" "length ps = length es" "i < length es"
  shows "params (update_momentum ps es m h) (es ! i) =
           map_option (\<lambda>q. q\<lparr>data := ema m (data q) (value_of h (ps ! i))\<rparr>) (params h (es ! i))"
  using assms
proof (induction ps es m h arbitrary: i rule: update_momentum.induct)
  case (1 p ps e es m h)
  let ?h1 = "modify e (\<lambda>q. q\<lparr>data := ema m (data q) (value_of h p)\<rparr>) h"
  show ?case
  proof (cases i)
    case 0
    have "e \<notin> set es" using "1.prems" by simp
    then have "params (update_momentum ps es m ?h1) e = params ?h1 e"
      by (rule update_momentum_frame)
    then show ?thesis using 0 by simp
  next
    case (Suc j)
    then have j: "j < length es" using "1.prems" by simp
    have d: "distinct es" "set ps \<inter> set es = {}" "length ps = length es"
      using "1.prems" by auto
    have ne: "es ! j \<noteq> e" using "1.prems" j by auto
    have "ps ! j \<in> set ps" using j d by simp
    then have np: "ps ! j \<noteq> e" using "1.prems" by auto
    have "params (update_momentum ps es m ?h1) (es ! j) =
           map_option (\<lambda>q. q\<lparr>data := ema m (data q) (value_of ?h1 (ps ! j))\<rparr>) (params ?h1 (es ! j))"
      using "1.IH" [OF d j] .
    moreover have "value_of ?h1 (ps ! j) = value_of h (ps ! j)"
      using np by (simp add: value_of_def)
    moreover have "params ?h1 (es ! j) = params h (es ! j)"
      using ne by simp
    ultimately show ?thesis using Suc by simp
  qed
qed simp_all


lemma update_momentum_fresh [simp]: "fresh (update_momentum ps es m h) = fresh h"
  by (induction ps es m h rule: update_momentum.induct) simp_all

lemma MocoModel_init_spec:
  assumes init: "MocoModel_init bw hw h0 = (self, h1)"
  shows "moco_model.backbone self = [fresh h0 ..< fresh h0 + length bw]
       \<and> projection_head self = [fresh h0 + length bw ..< fresh h0 + length bw + length hw]
       \<and> backbone_momentum self
           = [fresh h0 + length bw + length hw ..< fresh h0 + length bw + length hw + length bw]
       \<and> projection_head_momentum self
           = [fresh h0 + length bw + length hw + length bw
              ..< fresh h0 + length bw + length hw + length bw + length hw]
       \<and> (\<forall>i < length bw. params h1 (fresh h0 + i)
             = Some \<lparr>data = bw ! i, requires_grad = True, grad = None\<rparr>)
       \<and> (\<forall>i < length hw. params h1 (fresh h0 + length bw + i)
             = Some \<lparr>data = hw ! i, requires_grad = True, grad = None\<rparr>)
       \<and> (\<forall>i < length bw. params h1 (fresh h0 + length bw + length hw + i)
             = Some \<lparr>data = bw ! i, requires_grad = False, grad = None\<rparr>)
       \<and> (\<forall>i < length hw. params h1 (fresh h0 + length bw + length hw + length bw + i)
             = Some \<lparr>data = hw ! i, requires_grad = False, grad = None\<rparr>)"
proof -
  let ?f = "fresh h0" and ?n = "length bw" and ?k = "length hw"
  obtain bb ha ph hb bbm hc phm hd where
    a: "new_module bw h0 = (bb, ha)" and b: "new_module hw ha = (ph, hb)" and
    c: "deepcopy bb hb = (bbm, hc)" and d: "deepcopy ph hc = (phm, hd)" and
    self: "self = \<lparr>moco_model.backbone = bb, projection_head = ph,
                   backbone_momentum = bbm, projection_head_momentum = phm\<rparr>" and
    h1: "h1 = deactivate_requires_grad phm (deactivate_requires_grad bbm hd)"
    using init by (auto simp: MocoModel_init_def split: prod.splits)
  note A = new_module_spec [OF a]
  note B = new_module_spec [OF b]
  have bb: "bb = [?f ..< ?f + ?n]" and fa: "fresh ha = ?f + ?n"
    using A by simp_all
  have ph: "ph = [?f + ?n ..< ?f + ?n + ?k]" and fb: "fresh hb = ?f + ?n + ?k"
    using B fa by simp_all
  have "\<forall>a \<in> set bb. a < fresh hb"
    using bb fb by auto
  note C = deepcopy_spec [OF c this]
  have bbm: "bbm = [?f + ?n + ?k ..< ?f + ?n + ?k + ?n]" and fc: "fresh hc = ?f + ?n + ?k + ?n"
    using C fb bb by simp_all
  have "\<forall>a \<in> set ph. a < fresh hc"
    using ph fc by auto
  note D = deepcopy_spec [OF d this]
  have phm: "phm = [?f + ?n + ?k + ?n ..< ?f + ?n + ?k + ?n + ?k]"
    using D fc ph by simp
  have online_b: "params hb (?f + i) = Some \<lparr>data = bw ! i, requires_grad = True, grad = None\<rparr>"
    if "i < ?n" for i
  proof -
    have "params ha (?f + i) = Some \<lparr>data = bw ! i, requires_grad = True, grad = None\<rparr>"
      using A that by blast
    moreover have "params hb (?f + i) = params ha (?f + i)"
      using B fa that by simp
    ultimately show ?thesis by simp
  qed
  have online_h: "params hb (?f + ?n + i) = Some \<lparr>data = hw ! i, requires_grad = True, grad = None\<rparr>"
    if "i < ?k" for i
    using B fa that by simp
  have hc_low: "params hc a = params hb a" if "a < ?f + ?n + ?k" for a
    using C fb that by simp
  have hd_low: "params hd a = params hc a" if "a < ?f + ?n + ?k + ?n" for a
    using D fc that by simp
  have copy_b: "params hd (?f + ?n + ?k + i) = Some \<lparr>data = bw ! i, requires_grad = True, grad = None\<rparr>"
    if "i < ?n" for i
  proof -
    have "params hc (fresh hb + i) = params hb (bb ! i)"
      using C that bb by simp
    then have "params hc (?f + ?n + ?k + i) = params hb (?f + i)"
      using fb bb that by simp
    with online_b [OF that] hd_low [of "?f + ?n + ?k + i"] that show ?thesis by simp
  qed
  have copy_h: "params hd (?f + ?n + ?k + ?n + i) = Some \<lparr>data = hw ! i, requires_grad = True, grad = None\<rparr>"
    if "i < ?k" for i
  proof -
    have "params hd (fresh hc + i) = params hc (ph ! i)"
      using D that ph by simp
    then have "params hd (?f + ?n + ?k + ?n + i) = params hc (?f + ?n + i)"
      using fc ph that by simp
    with online_h [OF that] hc_low [of "?f + ?n + i"] that show ?thesis by simp
  qed
  have 1: "\<forall>i < ?n. params h1 (?f + i) = Some \<lparr>data = bw ! i, requires_grad = True, grad = None\<rparr>"
    using online_b hc_low hd_low by (simp add: h1 deactivate_requires_grad_params bbm phm)
  have 2: "\<forall>i < ?k. params h1 (?f + ?n + i) = Some \<lparr>data = hw ! i, requires_grad = True, grad = None\<rparr>"
    using online_h hc_low hd_low by (simp add: h1 deactivate_requires_grad_params bbm phm)
  have 3: "\<forall>i < ?n. params h1 (?f + ?n + ?k + i)
             = Some \<lparr>data = bw ! i, requires_grad = False, grad = None\<rparr>"
    using copy_b by (simp add: h1 deactivate_requires_grad_params bbm phm)
  have 4: "\<forall>i < ?k. params h1 (?f + ?n + ?k + ?n + i)
             = Some \<lparr>data = hw ! i, requires_grad = False, grad = None\<rparr>"
    using copy_h by (simp add: h1 deactivate_requires_grad_params bbm phm)
  from bb ph bbm phm 1 2 3 4 self show ?thesis by simp
qed

lemma frozen_without_grad_iff:
  "frozen_without_grad h a \<longleftrightarrow> (\<exists>p. params h a = Some p \<and> \<not> requires_grad p \<and> grad p = None)"
  by (simp add: frozen_without_grad_def split: option.splits)

lemma training_step_momentum:
  assumes dist: "distinct (moco_model.backbone self @ projection_head self
                   @ backbone_momentum self @ projection_head_momentum self)"
    and len: "length (backbone_momentum self) = length (moco_model.backbone self)"
             "length (projection_head_momentum self) = length (projection_head self)"
  shows "\<forall>i < length (backbone_momentum self).
           params (MocoModel_training_step self h) (backbone_momentum self ! i) =
             map_option (\<lambda>q. q\<lparr>data := ema 0.99 (data q) (value_of h (moco_model.backbone self ! i))\<rparr>)
               (params h (backbone_momentum self ! i))"
    and "\<forall>i < length (projection_head_momentum self).
           params (MocoModel_training_step self h) (projection_head_momentum self ! i) =
             map_option (\<lambda>q. q\<lparr>data := ema 0.99 (data q) (value_of h (projection_head self ! i))\<rparr>)
               (params h (projection_head_momentum self ! i))"
    and "\<forall>a. a \<notin> set (backbone_momentum self @ projection_head_momentum self) \<longrightarrow>
           params (MocoModel_training_step self h) a = params h a"
proof -
  let ?bb = "moco_model.backbone self" and ?ph = "projection_head self"
  let ?bbm = "backbone_momentum self" and ?phm = "projection_head_momentum self"
  let ?h1 = "update_momentum ?bb ?bbm 0.99 h"
  have d1: "distinct ?bbm" "set ?bb \<inter> set ?bbm = {}" "length ?bb = length ?bbm"
    using dist len by auto
  have d2: "distinct ?phm" "set ?ph \<inter> set ?phm = {}" "length ?ph = length ?phm"
    using dist len by auto
  have x: "set ?bbm \<inter> set ?phm = {}" "set ?ph \<inter> set ?bbm = {}"
    using dist by auto
  show "\<forall>i < length ?bbm.
           params (MocoModel_training_step self h) (?bbm ! i) =
             map_option (\<lambda>q. q\<lparr>data := ema 0.99 (data q) (value_of h (?bb ! i))\<rparr>)
               (params h (?bbm ! i))"
  proof (intro allI impI)
    fix i assume i: "i < length ?bbm"
    then have "?bbm ! i \<notin> set ?phm" using x by (meson disjoint_iff nth_mem)
    then have "params (update_momentum ?ph ?phm 0.99 ?h1) (?bbm ! i) = params ?h1 (?bbm ! i)"
      by (rule update_momentum_frame)
    with update_momentum_nth [OF d1 i, of "0.99" h]
    show "params (MocoModel_training_step self h) (?bbm ! i) =
             map_option (\<lambda>q. q\<lparr>data := ema 0.99 (data q) (value_of h (?bb ! i))\<rparr>)
               (params h (?bbm ! i))"
      by (simp add: MocoModel_training_step_def)
  qed
  show "\<forall>i < length ?phm.
           params (MocoModel_training_step self h) (?phm ! i) =
             map_option (\<lambda>q. q\<lparr>data := ema 0.99 (data q) (value_of h (?ph ! i))\<rparr>)
               (params h (?phm ! i))"
  proof (intro allI impI)
    fix i assume i: "i < length ?phm"
    then have "?ph ! i \<in> set ?ph" using d2 by simp
    then have "?ph ! i \<notin> set ?bbm" using x by auto
    then have v: "value_of ?h1 (?ph ! i) = value_of h (?ph ! i)"
      by (intro value_of_cong update_momentum_frame)
    have "?phm ! i \<notin> set ?bbm" using i x by (meson disjoint_iff nth_mem)
    then have p: "params ?h1 (?phm ! i) = params h (?phm ! i)"
      by (rule update_momentum_frame)
    from update_momentum_nth [OF d2 i, of "0.99" ?h1] v p
    show "params (MocoModel_training_step self h) (?phm ! i) =
             map_option (\<lambda>q. q\<lparr>data := ema 0.99 (data q) (value_of h (?ph ! i))\<rparr>)
               (params h (?phm ! i))"
      by (simp add: MocoModel_training_step_def)
  qed
  show "\<forall>a. a \<notin> set (?bbm @ ?phm) \<longrightarrow> params (MocoModel_training_step self h) a = params h a"
    by (simp add: MocoModel_training_step_def update_momentum_frame)
qed

lemma moco_iteration_momentum:
  fixes self :: moco_model
  assumes dist: "distinct (moco_model.backbone self @ projection_head self
                   @ backbone_momentum self @ projection_head_momentum self)"
    and len: "length (backbone_momentum self) = length (moco_model.backbone self)"
             "length (projection_head_momentum self) = length (projection_head self)"
    and fr: "list_all (frozen_without_grad h) (backbone_momentum self @ projection_head_momentum self)"
  shows "\<forall>i < length (backbone_momentum self).
           value_of (moco_iteration self h it) (backbone_momentum self ! i) =
             ema 0.99 (value_of h (backbone_momentum self ! i)) (value_of h (moco_model.backbone self ! i))"
    and "\<forall>i < length (projection_head_momentum self).
           value_of (moco_iteration self h it) (projection_head_momentum self ! i) =
             ema 0.99 (value_of h (projection_head_momentum self ! i)) (value_of h (projection_head self ! i))"
    and "list_all (frozen_without_grad (moco_iteration self h it))
           (backbone_momentum self @ projection_head_momentum self)"
proof -
  let ?bb = "moco_model.backbone self" and ?ph = "projection_head self"
  let ?bbm = "backbone_momentum self" and ?phm = "projection_head_momentum self"
  let ?t = "MocoModel_training_step self h"
  let ?h' = "moco_iteration self h it"
  note T = training_step_momentum [OF dist len, of h]
  have keep: "params ?h' a = Some p"
    if "params ?t a = Some p" "\<not> requires_grad p" "grad p = None" for a p
  proof -
    have "params (zero_grad it (MocoModel_configure_optimizers self) ?t) a = Some p"
      using that by (intro zero_grad_keeps) simp_all
    then have "params (backward it (MocoModel_parameters self)
                 (zero_grad it (MocoModel_configure_optimizers self) ?t)) a = Some p"
      using that by (intro backward_keeps) simp_all
    then have "params (optimizer_step it (MocoModel_configure_optimizers self)
                 (backward it (MocoModel_parameters self)
                    (zero_grad it (MocoModel_configure_optimizers self) ?t))) a = Some p"
      using that by (intro optimizer_step_keeps) simp_all
    then show ?thesis
      by (simp only: moco_iteration_def)
  qed
  have frz: "\<exists>q. params h a = Some q \<and> \<not> requires_grad q \<and> grad q = None"
    if "a \<in> set (?bbm @ ?phm)" for a
    using fr that by (auto simp: list_all_iff frozen_without_grad_iff)
  have b: "value_of ?h' (?bbm ! i) = ema 0.99 (value_of h (?bbm ! i)) (value_of h (?bb ! i))
         \<and> frozen_without_grad ?h' (?bbm ! i)"
    if i: "i < length ?bbm" for i
  proof -
    obtain q where q: "params h (?bbm ! i) = Some q" and q': "\<not> requires_grad q" "grad q = None"
      using frz [of "?bbm ! i"] i by auto
    let ?q' = "q\<lparr>data := ema 0.99 (data q) (value_of h (?bb ! i))\<rparr>"
    have "params ?t (?bbm ! i) = Some ?q'"
      using T(1) i q by simp
    moreover have "\<not> requires_grad ?q'" "grad ?q' = None"
      using q' by simp_all
    ultimately have new: "params ?h' (?bbm ! i) = Some ?q'"
      by (rule keep)
    have "value_of ?h' (?bbm ! i) = ema 0.99 (value_of h (?bbm ! i)) (value_of h (?bb ! i))"
      by (simp add: value_of_def new q)
    moreover have "frozen_without_grad ?h' (?bbm ! i)"
      using q' by (simp add: frozen_without_grad_def new)
    ultimately show ?thesis ..
  qed
  have p: "value_of ?h' (?phm ! i) = ema 0.99 (value_of h (?phm ! i)) (value_of h (?ph ! i))
         \<and> frozen_without_grad ?h' (?phm ! i)"
    if i: "i < length ?phm" for i
  proof -
    obtain q where q: "params h (?phm ! i) = Some q" and q': "\<not> requires_grad q" "grad q = None"
      using frz [of "?phm ! i"] i by auto
    let ?q' = "q\<lparr>data := ema 0.99 (data q) (value_of h (?ph ! i))\<rparr>"
    have "params ?t (?phm ! i) = Some ?q'"
      using T(2) i q by simp
    moreover have "\<not> requires_grad ?q'" "grad ?q' = None"
      using q' by simp_all
    ultimately have new: "params ?h' (?phm ! i) = Some ?q'"
      by (rule keep)
    have "value_of ?h' (?phm ! i) = ema 0.99 (value_of h (?phm ! i)) (value_of h (?ph ! i))"
      by (simp add: value_of_def new q)
    moreover have "frozen_without_grad ?h' (?phm ! i)"
      using q' by (simp add: frozen_without_grad_def new)
    ultimately show ?thesis ..
  qed
  show "\<forall>i < length ?bbm. value_of ?h' (?bbm ! i)
          = ema 0.99 (value_of h (?bbm ! i)) (value_of h (?bb ! i))"
    using b by simp
  show "\<forall>i < length ?phm. value_of ?h' (?phm ! i)
          = ema 0.99 (value_of h (?phm ! i)) (value_of h (?ph ! i))"
    using p by simp
  have "frozen_without_grad ?h' a" if a: "a \<in> set ?bbm" for a
  proof -
    obtain i where "i < length ?bbm" "?bbm ! i = a"
      using a by (auto simp: in_set_conv_nth)
    with b [of i] show ?thesis by auto
  qed
  moreover have "frozen_without_grad ?h' a" if a: "a \<in> set ?phm" for a
  proof -
    obtain i where "i < length ?phm" "?phm ! i = a"
      using a by (auto simp: in_set_conv_nth)
    with p [of i] show ?thesis by auto
  qed
  ultimately show "list_all (frozen_without_grad ?h') (?bbm @ ?phm)"
    unfolding list_all_iff by auto
qed


lemma ema_099: "ema 0.99 old online = map2 (\<lambda>e p. 0.99 * e + 0.01 * p) old online"
  by (simp add: ema_def algebra_simps)

lemma moco_fit_frozen:
  fixes self :: moco_model
  assumes dist: "distinct (moco_model.backbone self @ projection_head self
                   @ backbone_momentum self @ projection_head_momentum self)"
    and len: "length (backbone_momentum self) = length (moco_model.backbone self)"
             "length (projection_head_momentum self) = length (projection_head self)"
    and fr: "list_all (frozen_without_grad h) (backbone_momentum self @ projection_head_momentum self)"
  shows "list_all (frozen_without_grad (moco_fit self h its))
           (backbone_momentum self @ projection_head_momentum self)"
  using fr
proof (induction its arbitrary: h)
  case Nil
  then show ?case by (simp add: moco_fit_def)
next
  case (Cons it its)
  have "list_all (frozen_without_grad (moco_iteration self h it))
          (backbone_momentum self @ projection_head_momentum self)"
    using moco_iteration_momentum(3) [OF dist len Cons.prems] .
  then have "list_all (frozen_without_grad (moco_fit self (moco_iteration self h it) its))
          (backbone_momentum self @ projection_head_momentum self)"
    by (rule Cons.IH)
  then show ?case by (simp add: moco_fit_def)
qed

text \<open>
  C3. The momentum encoder of \<^verbatim>\<open>MocoModel\<close> (momentum backbone and momentum
  projection head) starts as a deep copy of the online networks, with parameter objects
  of its own that hold the same values and require no gradient. The optimizer is handed
  these parameters too, but through any number of training iterations they require no
  gradient and hold none, so the optimizer never updates them; and after every training
  iteration (the training step followed by \<^verbatim>\<open>zero_grad\<close>, \<^verbatim>\<open>backward\<close> and the
  optimizer's update) each momentum parameter is 0.99 times its value before the
  iteration plus 0.01 times the value the corresponding online parameter had before the
  iteration. Tensor entries are real numbers here.
\<close>

theorem momentum_encoder_only_momentum_update:
  assumes init: "MocoModel_init backbone_weights head_weights h0 = (self, h1)"
  shows "map (value_of h1) (backbone_momentum self) = map (value_of h1) (moco_model.backbone self)
       \<and> map (value_of h1) (projection_head_momentum self) = map (value_of h1) (projection_head self)
       \<and> set (backbone_momentum self @ projection_head_momentum self)
           \<inter> set (moco_model.backbone self @ projection_head self) = {}
       \<and> set (backbone_momentum self @ projection_head_momentum self)
           \<subseteq> set (MocoModel_configure_optimizers self)
       \<and> (\<forall>its. list_all (frozen_without_grad (moco_fit self h1 its))
                   (backbone_momentum self @ projection_head_momentum self))
       \<and> (\<forall>its it.
             map (value_of (moco_iteration self (moco_fit self h1 its) it)) (backbone_momentum self)
               = map2 (\<lambda>old online. map2 (\<lambda>e p. 0.99 * e + 0.01 * p) old online)
                   (map (value_of (moco_fit self h1 its)) (backbone_momentum self))
                   (map (value_of (moco_fit self h1 its)) (moco_model.backbone self)))
       \<and> (\<forall>its it.
             map (value_of (moco_iteration self (moco_fit self h1 its) it)) (projection_head_momentum self)
               = map2 (\<lambda>old online. map2 (\<lambda>e p. 0.99 * e + 0.01 * p) old online)
                   (map (value_of (moco_fit self h1 its)) (projection_head_momentum self))
                   (map (value_of (moco_fit self h1 its)) (projection_head self)))"
proof -
  let ?bb = "moco_model.backbone self" and ?ph = "projection_head self"
  let ?bbm = "backbone_momentum self" and ?phm = "projection_head_momentum self"
  let ?f = "fresh h0" and ?n = "length backbone_weights" and ?k = "length head_weights"
  note S = MocoModel_init_spec [OF init]
  have bb: "?bb = [?f ..< ?f + ?n]" and ph: "?ph = [?f + ?n ..< ?f + ?n + ?k]"
    and bbm: "?bbm = [?f + ?n + ?k ..< ?f + ?n + ?k + ?n]"
    and phm: "?phm = [?f + ?n + ?k + ?n ..< ?f + ?n + ?k + ?n + ?k]"
    using S by simp_all
  have len: "length ?bbm = length ?bb" "length ?phm = length ?ph"
    by (simp_all add: bb ph bbm phm)
  have dist: "distinct (?bb @ ?ph @ ?bbm @ ?phm)"
    by (auto simp: bb ph bbm phm)
  have vb: "value_of h1 (?bb ! i) = backbone_weights ! i" if "i < ?n" for i
    using S that by (simp add: value_of_def bb)
  have vbm: "value_of h1 (?bbm ! i) = backbone_weights ! i" if "i < ?n" for i
    using S that by (simp add: value_of_def bbm)
  have vp: "value_of h1 (?ph ! i) = head_weights ! i" if "i < ?k" for i
    using S that by (simp add: value_of_def ph)
  have vpm: "value_of h1 (?phm ! i) = head_weights ! i" if "i < ?k" for i
    using S that by (simp add: value_of_def phm)
  have nb: "length ?bb = ?n" "length ?bbm = ?n" and np: "length ?ph = ?k" "length ?phm = ?k"
    by (simp_all add: bb ph bbm phm)
  have 1: "map (value_of h1) ?bbm = map (value_of h1) ?bb"
  proof (rule nth_equalityI)
    show "length (map (value_of h1) ?bbm) = length (map (value_of h1) ?bb)"
      by (simp add: len)
  next
    fix i assume "i < length (map (value_of h1) ?bbm)"
    then have i: "i < ?n" by (simp add: nb)
    show "map (value_of h1) ?bbm ! i = map (value_of h1) ?bb ! i"
      using vb [OF i] vbm [OF i] i by (simp add: nb)
  qed
  have 2: "map (value_of h1) ?phm = map (value_of h1) ?ph"
  proof (rule nth_equalityI)
    show "length (map (value_of h1) ?phm) = length (map (value_of h1) ?ph)"
      by (simp add: len)
  next
    fix i assume "i < length (map (value_of h1) ?phm)"
    then have i: "i < ?k" by (simp add: np)
    show "map (value_of h1) ?phm ! i = map (value_of h1) ?ph ! i"
      using vp [OF i] vpm [OF i] i by (simp add: np)
  qed
  have 3: "set (?bbm @ ?phm) \<inter> set (?bb @ ?ph) = {}"
    using dist by auto
  have 4: "set (?bbm @ ?phm) \<subseteq> set (MocoModel_configure_optimizers self)"
    by (auto simp: MocoModel_configure_optimizers_def MocoModel_parameters_def)
  have fr1: "list_all (frozen_without_grad h1) (?bbm @ ?phm)"
  proof -
    have "frozen_without_grad h1 (?f + ?n + ?k + i)" if "i < ?n" for i
      using S that by (simp add: frozen_without_grad_def)
    moreover have "frozen_without_grad h1 (?f + ?n + ?k + ?n + i)" if "i < ?k" for i
      using S that by (simp add: frozen_without_grad_def)
    moreover have "\<exists>i < ?n. a = ?f + ?n + ?k + i" if "a \<in> set ?bbm" for a
      using that by (auto simp: bbm intro: exI [of _ "a - (?f + ?n + ?k)"])
    moreover have "\<exists>i < ?k. a = ?f + ?n + ?k + ?n + i" if "a \<in> set ?phm" for a
      using that by (auto simp: phm intro: exI [of _ "a - (?f + ?n + ?k + ?n)"])
    ultimately show ?thesis
      unfolding list_all_iff by (metis Un_iff set_append)
  qed
  have 5: "\<forall>its. list_all (frozen_without_grad (moco_fit self h1 its)) (?bbm @ ?phm)"
    using moco_fit_frozen [OF dist len fr1] by blast
  have 6: "map (value_of (moco_iteration self (moco_fit self h1 its) it)) ?bbm
               = map2 (\<lambda>old online. map2 (\<lambda>e p. 0.99 * e + 0.01 * p) old online)
                   (map (value_of (moco_fit self h1 its)) ?bbm)
                   (map (value_of (moco_fit self h1 its)) ?bb)" for its it
  proof (rule nth_equalityI)
    show "length (map (value_of (moco_iteration self (moco_fit self h1 its) it)) ?bbm)
            = length (map2 (\<lambda>old online. map2 (\<lambda>e p. 0.99 * e + 0.01 * p) old online)
                   (map (value_of (moco_fit self h1 its)) ?bbm)
                   (map (value_of (moco_fit self h1 its)) ?bb))"
      by (simp add: len)
  next
    fix i assume "i < length (map (value_of (moco_iteration self (moco_fit self h1 its) it)) ?bbm)"
    then have i: "i < length ?bbm" by simp
    from moco_iteration_momentum(1) [OF dist len 5 [rule_format], of its it] i
    have "value_of (moco_iteration self (moco_fit self h1 its) it) (?bbm ! i)
            = ema 0.99 (value_of (moco_fit self h1 its) (?bbm ! i))
                (value_of (moco_fit self h1 its) (?bb ! i))"
      by blast
    then show "map (value_of (moco_iteration self (moco_fit self h1 its) it)) ?bbm ! i
            = map2 (\<lambda>old online. map2 (\<lambda>e p. 0.99 * e + 0.01 * p) old online)
                   (map (value_of (moco_fit self h1 its)) ?bbm)
                   (map (value_of (moco_fit self h1 its)) ?bb) ! i"
      using i len unfolding ema_099 by simp
  qed
  have 7: "map (value_of (moco_iteration self (moco_fit self h1 its) it)) ?phm
               = map2 (\<lambda>old online. map2 (\<lambda>e p. 0.99 * e + 0.01 * p) old online)
                   (map (value_of (moco_fit self h1 its)) ?phm)
                   (map (value_of (moco_fit self h1 its)) ?ph)" for its it
  proof (rule nth_equalityI)
    show "length (map (value_of (moco_iteration self (moco_fit self h1 its) it)) ?phm)
            = length (map2 (\<lambda>old online. map2 (\<lambda>e p. 0.99 * e + 0.01 * p) old online)
                   (map (value_of (moco_fit self h1 its)) ?phm)
                   (map (value_of (moco_fit self h1 its)) ?ph))"
      by (simp add: len)
  next
    fix i assume "i < length (map (value_of (moco_iteration self (moco_fit self h1 its) it)) ?phm)"
    then have i: "i < length ?phm" by simp
    from moco_iteration_momentum(2) [OF dist len 5 [rule_format], of its it] i
    have "value_of (moco_iteration self (moco_fit self h1 its) it) (?phm ! i)
            = ema 0.99 (value_of (moco_fit self h1 its) (?phm ! i))
                (value_of (moco_fit self h1 its) (?ph ! i))"
      by blast
    then show "map (value_of (moco_iteration self (moco_fit self h1 its) it)) ?phm ! i
            = map2 (\<lambda>old online. map2 (\<lambda>e p. 0.99 * e + 0.01 * p) old online)
                   (map (value_of (moco_fit self h1 its)) ?phm)
                   (map (value_of (moco_fit self h1 its)) ?ph) ! i"
      using i len unfolding ema_099 by simp
  qed
  from 1 2 3 4 5 6 7 show ?thesis by blast
qed

text \<open>
  A backbone and a head of one parameter each, with values 1 and 2, and two iterations
  with gradient 1 everywhere and the update \<open>data - grad\<close>. After the first iteration
  the online backbone holds 0 and the momentum backbone 1; after the second the momentum
  backbone holds 0.99 * 1 + 0.01 * 0.
\<close>

theorem momentum_encoder_only_momentum_update_witness:
  "(case MocoModel_init [[1]] [[2]] \<lparr>params = \<lambda>a. None, fresh = 0\<rparr> of
      (self, h1) \<Rightarrow>
        map (value_of
               (moco_iteration self
                  (moco_fit self h1
                     [\<lparr>gradient = \<lambda>a. [1], rule = \<lambda>a d g. map2 (-) d g, set_to_none = True\<rparr>])
                  \<lparr>gradient = \<lambda>a. [1], rule = \<lambda>a d g. map2 (-) d g, set_to_none = True\<rparr>))
          (backbone_momentum self) = [[0.99]])"
proof -
  let ?h0 = "\<lparr>params = \<lambda>a. None, fresh = 0\<rparr> :: heap"
  let ?it = "\<lparr>gradient = \<lambda>a. [1], rule = \<lambda>a d g. map2 (-) d g, set_to_none = True\<rparr> :: iteration"
  obtain self h1 where init: "MocoModel_init [[1]] [[2]] ?h0 = (self, h1)"
    by (cases "MocoModel_init [[1]] [[2]] ?h0")
  have self: "self = fst (MocoModel_init [[1]] [[2]] ?h0)"
    and h1: "h1 = snd (MocoModel_init [[1]] [[2]] ?h0)"
    using init by simp_all
  have before: "map (value_of (moco_fit self h1 [?it])) (backbone_momentum self) = [[1]]"
    and online: "map (value_of (moco_fit self h1 [?it])) (moco_model.backbone self) = [[0]]"
    by (simp_all add: self h1 MocoModel_init_def moco_fit_def moco_iteration_def
          MocoModel_configure_optimizers_def MocoModel_parameters_def MocoModel_training_step_def
          value_of_def modify_def ema_def)
  from momentum_encoder_only_momentum_update [OF init]
  have "map (value_of (moco_iteration self (moco_fit self h1 [?it]) ?it)) (backbone_momentum self)
          = map2 (\<lambda>old online. map2 (\<lambda>e p. 0.99 * e + 0.01 * p) old online)
              (map (value_of (moco_fit self h1 [?it])) (backbone_momentum self))
              (map (value_of (moco_fit self h1 [?it])) (moco_model.backbone self))"
    by blast
  then have "map (value_of (moco_iteration self (moco_fit self h1 [?it]) ?it)) (backbone_momentum self)
          = [[0.99]]"
    unfolding before online by simp
  then show ?thesis
    by (simp add: init)
qed

section \<open>Shuffling and unshuffling the key batch\<close>

lemma permutation_facts:
  assumes "mset p = mset [0..<n]"
  shows "length p = n" and "set p = {0..<n}"
proof -
  show "length p = n"
    using assms by (metis length_upt mset_eq_length minus_nat.diff_0)
  show "set p = {0..<n}"
    using assms by (metis mset_eq_setD set_upt)
qed

lemma argsort_length [simp]: "length (argsort p) = length p"
  by (simp add: argsort_def)

lemma argsort_set [simp]: "set (argsort p) = {0..<length p}"
  by (simp add: argsort_def)

lemma argsort_inverts:
  assumes "mset p = mset [0..<n]"
  shows "map (\<lambda>j. p ! j) (argsort p) = [0..<n]"
proof -
  have n: "length p = n"
    using assms by (rule permutation_facts)
  let ?ys = "map (\<lambda>j. p ! j) (argsort p)"
  have "sorted ?ys"
    by (simp add: argsort_def sorted_sort_key)
  moreover have "mset ?ys = mset [0..<n]"
  proof -
    have "mset ?ys = image_mset (\<lambda>j. p ! j) (mset (argsort p))"
      by simp
    also have "mset (argsort p) = mset [0..<length p]"
      by (simp add: argsort_def)
    also have "image_mset (\<lambda>j. p ! j) (mset [0..<length p]) = mset (map (\<lambda>j. p ! j) [0..<length p])"
      by simp
    also have "map (\<lambda>j. p ! j) [0..<length p] = p"
      by (rule map_nth)
    finally show ?thesis
      using assms by simp
  qed
  ultimately have "sort [0..<n] = ?ys"
    by (intro properties_for_sort) simp_all
  then show ?thesis
    by (simp add: sorted_sort_id)
qed

lemma index_rows_Inr:
  "\<forall>i \<in> set idx. i < length batch \<Longrightarrow> index_rows batch idx = Inr (map (\<lambda>i. batch ! i) idx)"
  by (simp add: index_rows_def list_all_iff)

lemma shuffle_unshuffle:
  assumes perm: "mset p = mset [0..<length rows]"
  shows "index_rows rows p = Inr (map (\<lambda>i. rows ! i) p)"
    and "mset (map (\<lambda>i. rows ! i) p) = mset rows"
    and "index_rows (map f (map (\<lambda>i. rows ! i) p)) (argsort p) = Inr (map f rows)"
proof -
  let ?n = "length rows"
  note P = permutation_facts [OF perm]
  show 1: "index_rows rows p = Inr (map (\<lambda>i. rows ! i) p)"
    using P by (intro index_rows_Inr) simp
  show "mset (map (\<lambda>i. rows ! i) p) = mset rows"
  proof -
    have "mset (map (\<lambda>i. rows ! i) p) = image_mset (\<lambda>i. rows ! i) (mset [0..<?n])"
      using perm by simp
    also have "\<dots> = mset (map (\<lambda>i. rows ! i) [0..<?n])"
      by simp
    also have "map (\<lambda>i. rows ! i) [0..<?n] = rows"
      by (rule map_nth)
    finally show ?thesis .
  qed
  let ?enc = "map f (map (\<lambda>i. rows ! i) p)"
  have "index_rows ?enc (argsort p) = Inr (map (\<lambda>j. ?enc ! j) (argsort p))"
    using P by (intro index_rows_Inr) simp
  moreover have "map (\<lambda>j. ?enc ! j) (argsort p) = map f rows"
  proof -
    have "map (\<lambda>j. ?enc ! j) (argsort p) = map (\<lambda>j. f (rows ! (p ! j))) (argsort p)"
      using P by (intro map_cong) simp_all
    also have "\<dots> = map (\<lambda>i. f (rows ! i)) (map (\<lambda>j. p ! j) (argsort p))"
      by (simp add: comp_def)
    also have "\<dots> = map (\<lambda>i. f (rows ! i)) [0..<?n]"
      by (simp only: argsort_inverts [OF perm])
    also have "\<dots> = map f (map (\<lambda>i. rows ! i) [0..<?n])"
      by (simp add: comp_def)
    also have "\<dots> = map f rows"
      by (simp only: map_nth)
    finally show ?thesis .
  qed
  ultimately show "index_rows ?enc (argsort p) = Inr (map f rows)"
    by simp
qed

lemma permutation_distinct:
  assumes "mset p = mset [0..<n]"
  shows "distinct p"
  using assms by (metis distinct_upt mset_eq_imp_distinct_iff)

lemma argsort_left_inverse:
  assumes perm: "mset p = mset [0..<n]" and j: "j < n"
  shows "argsort p ! (p ! j) = j" and "p ! j < n"
proof -
  note P = permutation_facts [OF perm]
  show pj: "p ! j < n"
    using P j by (metis atLeastLessThan_iff nth_mem)
  have "map (\<lambda>i. p ! i) (argsort p) ! (p ! j) = [0..<n] ! (p ! j)"
    by (simp only: argsort_inverts [OF perm])
  then have "p ! (argsort p ! (p ! j)) = p ! j"
    using pj P by simp
  moreover have "argsort p ! (p ! j) < length p"
  proof -
    have "argsort p ! (p ! j) \<in> set (argsort p)"
      using pj P by (intro nth_mem) simp
    then show ?thesis by simp
  qed
  ultimately show "argsort p ! (p ! j) = j"
    using permutation_distinct [OF perm] j P by (simp add: nth_eq_iff_index_eq)
qed

lemma unshuffle_rows:
  assumes perm: "mset p = mset [0..<n]" and len: "length ys = n"
  shows "index_rows ys (argsort p) = Inr (map (\<lambda>i. ys ! i) (argsort p))"
    and "length (map (\<lambda>i. ys ! i) (argsort p)) = n"
    and "\<forall>j < n. map (\<lambda>i. ys ! i) (argsort p) ! (p ! j) = ys ! j"
proof -
  note P = permutation_facts [OF perm]
  show "index_rows ys (argsort p) = Inr (map (\<lambda>i. ys ! i) (argsort p))"
    using P len by (intro index_rows_Inr) simp
  show "length (map (\<lambda>i. ys ! i) (argsort p)) = n"
    using P by simp
  show "\<forall>j < n. map (\<lambda>i. ys ! i) (argsort p) ! (p ! j) = ys ! j"
  proof (intro allI impI)
    fix j assume j: "j < n"
    note A = argsort_left_inverse [OF perm j]
    have "map (\<lambda>i. ys ! i) (argsort p) ! (p ! j) = ys ! (argsort p ! (p ! j))"
      using A(2) P by simp
    then show "map (\<lambda>i. ys ! i) (argsort p) ! (p ! j) = ys ! j"
      by (simp only: A(1))
  qed
qed

text \<open>
  C8. In \<^verbatim>\<open>MocoModel.training_step\<close> the key batch is shuffled with \<^verbatim>\<open>batch_shuffle\<close>
  before it is passed through the momentum encoder, and the result is unshuffled with
  \<^verbatim>\<open>batch_unshuffle\<close> and the indices \<^verbatim>\<open>batch_shuffle\<close> returned. Whenever the indices
  drawn are a permutation of the row numbers and the encoder returns one row per row:
  \<^item> unshuffling the shuffled batch gives the batch back;
  \<^item> the encoder is handed the shuffled batch \<open>k\<close>, whose row \<open>j\<close> is the image
    \<open>shuffle ! j\<close> of the key batch, and the row \<open>j\<close> of what the encoder returns for
    \<open>k\<close> is the key at index \<open>shuffle ! j\<close>: every key sits at the index of the image
    it was computed from;
  \<^item> for an encoder that works row by row, in whatever way a row's embedding depends
    on the batch it is handed and on the order of its rows, the keys are the embeddings
    of the images in their original order, computed within the shuffled batch;
  \<^item> when the embedding depends on the batch only as a multiset (batch statistics),
    the keys are the embeddings of the images in their original order.
  The encoder is arbitrary, so a key path that hands the encoder the batch as it came,
  or that leaves the result in the shuffled order, does not have these properties.
\<close>

theorem key_batch_unshuffled_in_order:
  assumes randperm: "mset (randperm (length x_k)) = mset [0..<length x_k]"
    and rows: "length (momentum_encoder (map (\<lambda>i. x_k ! i) (randperm (length x_k)))) = length x_k"
  shows "(\<exists>k shuffle keys.
            batch_shuffle randperm x_k = Inr (k, shuffle)
          \<and> shuffle = randperm (length x_k)
          \<and> mset k = mset x_k
          \<and> batch_unshuffle k shuffle = Inr x_k
          \<and> MocoModel_keys randperm momentum_encoder x_k = Inr keys
          \<and> length keys = length x_k
          \<and> (\<forall>j < length x_k.
                 shuffle ! j < length x_k
               \<and> k ! j = x_k ! (shuffle ! j)
               \<and> keys ! (shuffle ! j) = momentum_encoder k ! j))
       \<and> (\<forall>f. MocoModel_keys randperm (\<lambda>batch. map (f batch) batch) x_k
              = Inr (map (f (map (\<lambda>i. x_k ! i) (randperm (length x_k)))) x_k))
       \<and> (\<forall>g. MocoModel_keys randperm (\<lambda>batch. map (g (mset batch)) batch) x_k
              = Inr (map (g (mset x_k)) x_k))"
proof -
  let ?n = "length x_k"
  let ?p = "randperm ?n"
  let ?k = "map (\<lambda>i. x_k ! i) ?p"
  let ?keys = "map (\<lambda>i. momentum_encoder ?k ! i) (argsort ?p)"
  note S = shuffle_unshuffle [OF randperm]
  note P = permutation_facts [OF randperm]
  note U = unshuffle_rows [OF randperm rows]
  have sh: "batch_shuffle randperm x_k = Inr (?k, ?p)"
    by (simp add: batch_shuffle_def Let_def S(1))
  have ms: "mset ?k = mset x_k"
    by (rule S(2))
  have "index_rows (map id ?k) (argsort ?p) = Inr (map id x_k)"
    by (rule S(3))
  then have un: "batch_unshuffle ?k ?p = Inr x_k"
    by (simp add: batch_unshuffle_def Let_def)
  have keys: "MocoModel_keys randperm momentum_encoder x_k = Inr ?keys"
  proof -
    have "MocoModel_keys randperm momentum_encoder x_k
            = index_rows (momentum_encoder ?k) (argsort ?p)"
      by (simp only: MocoModel_keys_def sh sum.case prod.case batch_unshuffle_def Let_def)
    then show ?thesis
      by (simp only: U(1))
  qed
  have len: "length ?keys = ?n"
    by (rule U(2))
  have each: "\<forall>j < ?n. ?p ! j < ?n \<and> ?k ! j = x_k ! (?p ! j)
                \<and> ?keys ! (?p ! j) = momentum_encoder ?k ! j"
  proof (intro allI impI)
    fix j assume j: "j < ?n"
    have "?p ! j < ?n"
      by (rule argsort_left_inverse(2) [OF randperm j])
    moreover have "?k ! j = x_k ! (?p ! j)"
      using j P by simp
    moreover have "?keys ! (?p ! j) = momentum_encoder ?k ! j"
      using U(3) j by blast
    ultimately show "?p ! j < ?n \<and> ?k ! j = x_k ! (?p ! j)
                \<and> ?keys ! (?p ! j) = momentum_encoder ?k ! j"
      by blast
  qed
  have rowwise: "MocoModel_keys randperm (\<lambda>batch. map (f batch) batch) x_k = Inr (map (f ?k) x_k)"
    for f
  proof -
    have "MocoModel_keys randperm (\<lambda>batch. map (f batch) batch) x_k
            = index_rows (map (f ?k) ?k) (argsort ?p)"
      by (simp only: MocoModel_keys_def sh sum.case prod.case batch_unshuffle_def Let_def)
    then show ?thesis
      by (simp only: S(3))
  qed
  have bymset: "MocoModel_keys randperm (\<lambda>batch. map (g (mset batch)) batch) x_k
                  = Inr (map (g (mset x_k)) x_k)"
    for g
    using rowwise [of "\<lambda>batch. g (mset batch)"] by (simp only: ms)
  have first: "\<exists>k shuffle keys.
            batch_shuffle randperm x_k = Inr (k, shuffle)
          \<and> shuffle = randperm (length x_k)
          \<and> mset k = mset x_k
          \<and> batch_unshuffle k shuffle = Inr x_k
          \<and> MocoModel_keys randperm momentum_encoder x_k = Inr keys
          \<and> length keys = length x_k
          \<and> (\<forall>j < length x_k.
                 shuffle ! j < length x_k
               \<and> k ! j = x_k ! (shuffle ! j)
               \<and> keys ! (shuffle ! j) = momentum_encoder k ! j)"
    using sh ms un keys len each by blast
  from first rowwise bymset show ?thesis
    by blast
qed

text \<open>
  Three images, drawn in the order 2, 0, 1, and an encoder that adds to every row the
  first row of the batch it is handed. The encoder sees 30, 10, 20 and returns
  60, 40, 50; the keys are 40, 50, 60. Without the shuffle they would be 20, 30, 40, and
  without the unshuffle 60, 40, 50.
\<close>

theorem key_batch_unshuffled_in_order_witness:
  "MocoModel_keys (\<lambda>n. [2, 0, 1]) (\<lambda>batch. map (\<lambda>x. x + hd batch) batch) [10, 20, 30 :: nat]
     = Inr [40, 50, 60]"
proof -
  let ?randperm = "\<lambda>n :: nat. [2, 0, 1 :: nat]"
  let ?enc = "\<lambda>batch :: nat list. map (\<lambda>x. x + hd batch) batch"
  let ?x_k = "[10, 20, 30] :: nat list"
  have randperm: "mset (?randperm (length ?x_k)) = mset [0..<length ?x_k]"
    by (simp add: numeral_2_eq_2)
  have rows: "length (?enc (map (\<lambda>i. ?x_k ! i) (?randperm (length ?x_k)))) = length ?x_k"
    by simp
  from key_batch_unshuffled_in_order [of ?randperm ?x_k ?enc, OF randperm rows]
  obtain k shuffle keys where
    sh: "batch_shuffle ?randperm ?x_k = Inr (k, shuffle)" and
    keys: "MocoModel_keys ?randperm ?enc ?x_k = Inr keys" and
    len: "length keys = length ?x_k" and
    each: "\<forall>j < length ?x_k. keys ! (shuffle ! j) = ?enc k ! j"
    by blast
  have "k = [30, 10, 20]" and "shuffle = [2, 0, 1]"
    using sh by (simp_all add: batch_shuffle_def index_rows_def Let_def)
  with each have "\<forall>j < 3. keys ! ([2, 0, 1] ! j) = [60, 40, 50] ! j"
    by simp
  then have "keys ! 2 = 60" "keys ! 0 = 40" "keys ! 1 = 50"
    using less_Suc_eq by (auto simp: numeral_3_eq_3 numeral_2_eq_2)
  with len have "keys = [40, 50, 60]"
    by (intro nth_equalityI) (auto simp: less_Suc_eq numeral_3_eq_3 numeral_2_eq_2)
  with keys show ?thesis
    by simp
qed

section \<open>Properties of the code of the notebooks\<close>

lemmas notebook_code_defs =
  moco_notebook_def simclr_notebook_def MocoModel_class_def Classifier_class_def
  simclr_training_loop_def MocoModel_init_code_def MocoModel_training_step_code_def
  on_train_epoch_end_code_def custom_histogram_weights_code_def
  MocoModel_configure_optimizers_code_def Classifier_init_code_def Classifier_forward_code_def
  Classifier_training_step_code_def Classifier_validation_step_code_def
  Classifier_on_validation_epoch_end_code_def Classifier_configure_optimizers_code_def
  SelectStage_init_code_def

text \<open>
  C1. The specification has both notebooks go through the same steps in the same order:
  dataset, dataloader, model defined by subclassing the base class of the training
  framework, optimizer and scheduler, training delegated to the trainer of the
  framework, checkpoint saved. Neither notebook does. Read from top to bottom, the MoCo
  notebook constructs datasets and dataloaders, defines its models by subclassing
  \<^verbatim>\<open>pl.LightningModule\<close> (the optimizer and the scheduler are constructed in
  \<^verbatim>\<open>configure_optimizers\<close>) and delegates training to \<^verbatim>\<open>trainer.fit\<close>, and saves no
  checkpoint. The SimCLR notebook builds its model with the model builder of the
  library, constructs a dataset, a dataloader and an optimizer, has no scheduler, runs a
  training loop written out in the notebook, and saves a checkpoint.
\<close>

theorem notebooks_steps:
  "notebook_steps moco_notebook =
     [ConstructDataset, ConstructDataloader, SubclassFrameworkModel,
      ConstructOptimizer, ConstructScheduler, TrainerFit]
 \<and> notebook_steps simclr_notebook =
     [BuildLibraryModel, ConstructDataset, ConstructDataloader,
      ConstructOptimizer, HandWrittenLoop, SaveCheckpoint]"
  by (simp add: notebook_steps_def notebook_code_defs step_of_call_def)

text \<open>The steps of either notebook are not the steps the specification gives.\<close>

theorem notebooks_same_steps_counterexample:
  "notebook_steps simclr_notebook \<noteq> specified_steps
 \<and> notebook_steps moco_notebook \<noteq> specified_steps"
  by (simp add: notebook_steps_def notebook_code_defs step_of_call_def specified_steps_def)

text \<open>
  C2. Not every hook the two subclasses override is straight-line. The training steps,
  the validation step and the two \<^verbatim>\<open>configure_optimizers\<close> are: no conditional, no
  loop, no error handling; and no hook has error handling. \<^verbatim>\<open>on_train_epoch_end\<close> is one
  call of a helper of the repository whose body loops, without a conditional.
  \<^verbatim>\<open>Classifier.on_validation_epoch_end\<close> is one conditional without \<^verbatim>\<open>else\<close>; the
  guarded block has a loop and no further conditional.
\<close>

theorem hooks_control_flow:
  "straight_line MocoModel_training_step_code
 \<and> straight_line MocoModel_configure_optimizers_code
 \<and> straight_line Classifier_training_step_code
 \<and> straight_line Classifier_validation_step_code
 \<and> straight_line Classifier_configure_optimizers_code
 \<and> list_all (\<lambda>hook. list_all try_free (snd hook)) framework_hooks
 \<and> (\<exists>helper body. on_train_epoch_end_code = [Invoke helper body]
        \<and> list_all branch_free body \<and> \<not> list_all loop_free body)
 \<and> (\<exists>condition guarded. Classifier_on_validation_epoch_end_code = [IfStmt condition guarded []]
        \<and> list_all branch_free guarded \<and> \<not> list_all loop_free guarded)"
  by (simp add: straight_line_def framework_hooks_def notebook_code_defs)

text \<open>\<^verbatim>\<open>Classifier.on_validation_epoch_end\<close> is a hook, and it branches.\<close>

theorem hooks_straight_line_counterexample:
  "(''Classifier.on_validation_epoch_end'', Classifier_on_validation_epoch_end_code)
     \<in> set framework_hooks
 \<and> \<not> straight_line Classifier_on_validation_epoch_end_code
 \<and> \<not> list_all branch_free Classifier_on_validation_epoch_end_code"
  by (simp add: straight_line_def framework_hooks_def notebook_code_defs)

section \<open>Properties of runs\<close>

lemma call_cases:
  "call w f tr = (Done, tr @ [f]) \<and> raises w f tr = None
   \<or> (\<exists>e. call w f tr = (Raised e, tr @ [f]) \<and> raises w f tr = Some e)"
  by (cases "raises w f tr") (simp_all add: call_def)

lemma run_calls_append:
  "run_calls w tr (fs @ gs) =
     (case run_calls w tr fs of
        (Done, tr') \<Rightarrow> run_calls w tr' gs
      | (Raised e, tr') \<Rightarrow> (Raised e, tr'))"
  by (induction fs arbitrary: tr) (simp_all split: option.splits)

lemma run_calls_Done_trace: "run_calls w tr fs = (Done, tr') \<Longrightarrow> tr' = tr @ fs"
  by (induction fs arbitrary: tr) (fastforce split: option.splits)+

lemma uncaught_refl: "uncaught w tr (Done, tr)"
  by (simp add: uncaught_def)

lemma uncaught_call: "uncaught w tr (call w f tr)"
  unfolding uncaught_def
  by (rule exI [of _ "[f]"]) (simp add: call_def split: option.splits)

lemma uncaught_seq:
  assumes first: "uncaught w tr (Done, tr1)" and rest: "uncaught w tr1 r"
  shows "uncaught w tr r"
proof -
  obtain fs where fs: "tr1 = tr @ fs" "run_calls w tr fs = (Done, tr1)"
    using first by (auto simp: uncaught_def)
  obtain gs where gs: "snd r = tr1 @ gs" "run_calls w tr1 gs = r"
    using rest by (auto simp: uncaught_def)
  have "run_calls w tr (fs @ gs) = r"
    by (simp add: run_calls_append fs(2) gs(2))
  moreover have "snd r = tr @ (fs @ gs)"
    using fs gs by simp
  ultimately show ?thesis
    unfolding uncaught_def by blast
qed

lemma uncaught_iterate:
  assumes body: "\<And>t. uncaught w t (body t)"
  shows "uncaught w tr (iterate n body tr)"
proof (induction n arbitrary: tr)
  case 0
  show ?case by (simp add: uncaught_refl)
next
  case (Suc n)
  obtain out tr1 where b: "body tr = (out, tr1)"
    by (cases "body tr")
  show ?case
  proof (cases out)
    case Done
    have "uncaught w tr (Done, tr1)"
      using body [of tr] b Done by simp
    then have "uncaught w tr (iterate n body tr1)"
      using Suc.IH by (rule uncaught_seq)
    then show ?thesis
      using b Done by simp
  next
    case (Raised e)
    then show ?thesis
      using body [of tr] b by simp
  qed
qed

lemma uncaught_exec:
  "try_free s \<Longrightarrow> uncaught w tr (exec w s tr)"
  "list_all try_free ss \<Longrightarrow> uncaught w tr (exec_list w ss tr)"
proof (induction w s tr and w ss tr rule: exec_exec_list.induct)
  case (1 w m tr)
  show ?case by (simp add: uncaught_call)
next
  case (2 w f tr)
  show ?case by (simp add: uncaught_call)
next
  case (3 w f body tr)
  then show ?case by simp
next
  case (4 w c yes no tr)
  then show ?case by simp
next
  case (5 w c body tr)
  have "uncaught w t (case call w (''next '' @ c) t of
               (Done, t') \<Rightarrow> exec_list w body t'
             | (Raised e, t') \<Rightarrow> (Raised e, t'))" for t
  proof -
    obtain out t1 where c: "call w (''next '' @ c) t = (out, t1)"
      by (cases "call w (''next '' @ c) t")
    have u: "uncaught w t (out, t1)"
      using uncaught_call [of w t "''next '' @ c"] c by simp
    show ?thesis
    proof (cases out)
      case Done
      have "uncaught w t1 (exec_list w body t1)"
        using "5.IH" [OF c [symmetric]] Done "5.prems" by simp
      with u Done have "uncaught w t (exec_list w body t1)"
        by (auto intro: uncaught_seq)
      then show ?thesis using c Done by simp
    next
      case (Raised e)
      then show ?thesis using u c by simp
    qed
  qed
  then show ?case
    by (simp add: uncaught_iterate)
next
  case (6 w body handler tr)
  then show ?case by simp
next
  case (7 w f body tr)
  show ?case by (simp add: uncaught_refl)
next
  case (8 w c base body tr)
  show ?case by (simp add: uncaught_refl)
next
  case (9 w tr)
  show ?case by (simp add: uncaught_refl)
next
  case (10 w s ss tr)
  obtain out tr1 where e: "exec w s tr = (out, tr1)"
    by (cases "exec w s tr")
  have u: "uncaught w tr (out, tr1)"
    using "10.IH"(1) "10.prems" e by simp
  show ?case
  proof (cases out)
    case Done
    have "uncaught w tr1 (exec_list w ss tr1)"
      using "10.IH"(2) [OF e [symmetric]] Done "10.prems" by simp
    with u Done have "uncaught w tr (exec_list w ss tr1)"
      by (auto intro: uncaught_seq)
    then show ?thesis using e Done by simp
  next
    case (Raised x)
    then show ?thesis using u e by simp
  qed
qed

lemma uncaught_Raised_last:
  assumes "uncaught w tr (Raised e, tr')"
  shows "tr' \<noteq> [] \<and> raises w (last tr') (butlast tr') = Some e"
proof -
  obtain fs where fs: "tr' = tr @ fs" "run_calls w tr fs = (Raised e, tr')"
    using assms by (auto simp: uncaught_def)
  have "run_calls w tr fs = (Raised e, tr') \<Longrightarrow>
        tr' \<noteq> [] \<and> raises w (last tr') (butlast tr') = Some e" for tr fs
    by (induction fs arbitrary: tr) (auto split: option.splits)
  with fs show ?thesis by blast
qed

lemma uncaught_Done_none:
  assumes "uncaught w tr (Done, tr')"
  shows "\<exists>fs. tr' = tr @ fs \<and> (\<forall>i < length fs. raises w (fs ! i) (tr @ take i fs) = None)"
proof -
  obtain fs where fs: "tr' = tr @ fs" "run_calls w tr fs = (Done, tr')"
    using assms by (auto simp: uncaught_def)
  have "run_calls w tr fs = (Done, tr') \<Longrightarrow>
        (\<forall>i < length fs. raises w (fs ! i) (tr @ take i fs) = None)" for tr fs tr'
  proof (induction fs arbitrary: tr)
    case Nil
    then show ?case by simp
  next
    case (Cons f fs)
    from Cons.prems have r: "raises w f tr = None" and rest: "run_calls w (tr @ [f]) fs = (Done, tr')"
      by (auto split: option.splits)
    show ?case
    proof (intro allI impI)
      fix i assume "i < length (f # fs)"
      then show "raises w ((f # fs) ! i) (tr @ take i (f # fs)) = None"
        using r Cons.IH [OF rest] by (cases i) auto
    qed
  qed
  with fs show ?thesis by blast
qed

lemma repository_try_free: "\<forall>op \<in> set repository_operations. list_all try_free op"
  by (simp add: repository_operations_def notebook_code_defs)

text \<open>
  C4. No operation the repository defines catches an exception. None of its code
  cells and methods contains a \<^verbatim>\<open>try\<close>; and in every world, from every history, a run
  of any of them is the run of its library calls one after the other up to the first
  that raises: when a call raises, the run ends there with that exception, the raising
  call is the last thing the run did, and nothing is retried or recovered.
\<close>

theorem no_operation_catches:
  "\<forall>op \<in> set repository_operations.
      list_all try_free op
    \<and> (\<forall>w tr. uncaught w tr (exec_list w op tr))
    \<and> (\<forall>w tr e tr'. exec_list w op tr = (Raised e, tr') \<longrightarrow>
           tr' \<noteq> [] \<and> raises w (last tr') (butlast tr') = Some e)"
proof
  fix op assume "op \<in> set repository_operations"
  then have free: "list_all try_free op"
    using repository_try_free by blast
  then have unc: "uncaught w tr (exec_list w op tr)" for w tr
    by (rule uncaught_exec)
  have "tr' \<noteq> [] \<and> raises w (last tr') (butlast tr') = Some e"
    if "exec_list w op tr = (Raised e, tr')" for w tr e tr'
    using unc [of w tr] that by (simp add: uncaught_Raised_last)
  with free unc show "list_all try_free op
    \<and> (\<forall>w tr. uncaught w tr (exec_list w op tr))
    \<and> (\<forall>w tr e tr'. exec_list w op tr = (Raised e, tr') \<longrightarrow>
           tr' \<noteq> [] \<and> raises w (last tr') (butlast tr') = Some e)"
    by blast
qed

text \<open>
  \<^verbatim>\<open>Classifier.training_step\<close> in a world where the loss raises (a shape mismatch):
  the run ends with that exception after the call of the loss, and \<^verbatim>\<open>self.log\<close> is
  never called.
\<close>

theorem no_operation_catches_witness:
  "exec_list \<lparr>raises = \<lambda>f tr. if f = ''self.criterion'' then Some ''RuntimeError'' else None,
              holds = \<lambda>c tr. True, iterations = \<lambda>c tr. 1\<rparr>
     Classifier_training_step_code []
     = (Raised ''RuntimeError'', [''self.backbone'', ''flatten'', ''self.fc'', ''self.criterion''])
   \<and> raises \<lparr>raises = \<lambda>f tr. if f = ''self.criterion'' then Some ''RuntimeError'' else None,
              holds = \<lambda>c tr. True, iterations = \<lambda>c tr. 1\<rparr>
        ''self.criterion'' [''self.backbone'', ''flatten'', ''self.fc'']
     = Some ''RuntimeError''"
proof -
  let ?w = "\<lparr>raises = \<lambda>f tr. if f = ''self.criterion'' then Some ''RuntimeError'' else None,
              holds = \<lambda>c tr. True, iterations = \<lambda>c tr. 1\<rparr> :: world"
  let ?tr = "[''self.backbone'', ''flatten'', ''self.fc'', ''self.criterion'']"
  have member: "Classifier_training_step_code \<in> set repository_operations"
    by (simp add: repository_operations_def)
  have run: "exec_list ?w Classifier_training_step_code [] = (Raised ''RuntimeError'', ?tr)"
    by (simp add: Classifier_training_step_code_def Classifier_forward_code_def call_def)
  from no_operation_catches member run
  have "?tr \<noteq> [] \<and> raises ?w (last ?tr) (butlast ?tr) = Some ''RuntimeError''"
    by blast
  then have "raises ?w ''self.criterion'' [''self.backbone'', ''flatten'', ''self.fc'']
               = Some ''RuntimeError''"
    by simp
  with run show ?thesis
    by blast
qed

lemma exec_list_append:
  "exec_list w (xs @ ys) tr =
     (case exec_list w xs tr of
        (Done, tr') \<Rightarrow> exec_list w ys tr'
      | (Raised e, tr') \<Rightarrow> (Raised e, tr'))"
  by (induction xs arbitrary: tr) (auto split: prod.splits outcome.splits)

lemma iterate_calls:
  assumes body: "\<And>t out t'. body t = (out, t') \<Longrightarrow> \<exists>fs. t' = t @ fs \<and> set fs \<subseteq> A"
  shows "iterate n body tr = (out, tr') \<Longrightarrow> \<exists>fs. tr' = tr @ fs \<and> set fs \<subseteq> A"
proof (induction n arbitrary: tr)
  case 0
  then show ?case by simp
next
  case (Suc n)
  obtain o1 t1 where b: "body tr = (o1, t1)"
    by (cases "body tr")
  then obtain fs where fs: "t1 = tr @ fs" "set fs \<subseteq> A"
    using body by blast
  show ?case
  proof (cases o1)
    case Done
    then have "iterate n body t1 = (out, tr')"
      using Suc.prems b by simp
    then obtain gs where "tr' = t1 @ gs" "set gs \<subseteq> A"
      using Suc.IH by blast
    then have "tr' = tr @ (fs @ gs) \<and> set (fs @ gs) \<subseteq> A"
      using fs by simp
    then show ?thesis by blast
  next
    case (Raised e)
    then have "tr' = t1"
      using Suc.prems b by simp
    then show ?thesis using fs by blast
  qed
qed

lemma call_calls: "call w f tr = (out, tr') \<Longrightarrow> tr' = tr @ [f]"
  by (auto simp: call_def split: option.splits)

lemma exec_calls:
  "exec w s tr = (out, tr') \<Longrightarrow> \<exists>fs. tr' = tr @ fs \<and> set fs \<subseteq> set (calls_of s)"
  "exec_list w ss tr = (out, tr') \<Longrightarrow>
     \<exists>fs. tr' = tr @ fs \<and> set fs \<subseteq> set (concat (map calls_of ss))"
proof (induction w s tr and w ss tr arbitrary: out tr' and out tr' rule: exec_exec_list.induct)
  case (1 w m tr)
  then show ?case by (auto dest: call_calls)
next
  case (2 w f tr)
  then show ?case by (auto dest: call_calls)
next
  case (3 w f body tr)
  then show ?case by simp
next
  case (4 w c yes no tr)
  show ?case
  proof (cases "holds w c tr")
    case True
    then have "exec_list w yes tr = (out, tr')" using "4.prems" by simp
    from "4.IH"(1) [OF True this] show ?thesis by auto
  next
    case False
    then have "exec_list w no tr = (out, tr')" using "4.prems" by simp
    from "4.IH"(2) [OF False this] show ?thesis by auto
  qed
next
  case (5 w c body tr)
  let ?A = "set (calls_of (ForStmt c body))"
  let ?b = "\<lambda>t. case call w (''next '' @ c) t of
               (Done, t') \<Rightarrow> exec_list w body t'
             | (Raised e, t') \<Rightarrow> (Raised e, t')"
  have "\<exists>fs. t' = t @ fs \<and> set fs \<subseteq> ?A" if b: "?b t = (o1, t')" for t o1 t'
  proof -
    obtain o2 t2 where c: "call w (''next '' @ c) t = (o2, t2)"
      by (cases "call w (''next '' @ c) t")
    then have t2: "t2 = t @ [''next '' @ c]"
      by (rule call_calls)
    show ?thesis
    proof (cases o2)
      case Done
      then have "exec_list w body t2 = (o1, t')"
        using b c by simp
      from "5.IH" [OF c [symmetric] Done this]
      obtain gs where "t' = t2 @ gs" "set gs \<subseteq> set (concat (map calls_of body))"
        by blast
      then have "t' = t @ ((''next '' @ c) # gs) \<and> set ((''next '' @ c) # gs) \<subseteq> ?A"
        using t2 by auto
      then show ?thesis by blast
    next
      case (Raised e)
      then have "t' = t2" using b c by simp
      then have "t' = t @ [''next '' @ c] \<and> set [''next '' @ c] \<subseteq> ?A"
        using t2 by simp
      then show ?thesis by blast
    qed
  qed
  moreover have "iterate (iterations w c tr) ?b tr = (out, tr')"
    using "5.prems" by simp
  ultimately show ?case
    by (rule iterate_calls)
next
  case (6 w body handler tr)
  obtain o1 t1 where b: "exec_list w body tr = (o1, t1)"
    by (cases "exec_list w body tr")
  from "6.IH"(1) [OF b] obtain fs where fs: "t1 = tr @ fs" "set fs \<subseteq> set (concat (map calls_of body))"
    by blast
  show ?case
  proof (cases o1)
    case Done
    then have "tr' = t1" using "6.prems" b by simp
    then show ?thesis using fs by auto
  next
    case (Raised e)
    then have "exec_list w handler t1 = (out, tr')"
      using "6.prems" b by simp
    from "6.IH"(2) [OF b [symmetric] Raised this]
    obtain gs where "tr' = t1 @ gs" "set gs \<subseteq> set (concat (map calls_of handler))"
      by blast
    then have "tr' = tr @ (fs @ gs) \<and> set (fs @ gs) \<subseteq> set (calls_of (TryStmt body handler))"
      using fs by auto
    then show ?thesis by blast
  qed
next
  case (7 w f body tr)
  then show ?case by simp
next
  case (8 w c base body tr)
  then show ?case by simp
next
  case (9 w tr)
  then show ?case by simp
next
  case (10 w s ss tr)
  obtain o1 t1 where e: "exec w s tr = (o1, t1)"
    by (cases "exec w s tr")
  from "10.IH"(1) [OF e] obtain fs where fs: "t1 = tr @ fs" "set fs \<subseteq> set (calls_of s)"
    by blast
  show ?case
  proof (cases o1)
    case Done
    then have "exec_list w ss t1 = (out, tr')"
      using "10.prems" e by simp
    from "10.IH"(2) [OF e [symmetric] Done this]
    obtain gs where "tr' = t1 @ gs" "set gs \<subseteq> set (concat (map calls_of ss))"
      by blast
    then have "tr' = tr @ (fs @ gs) \<and> set (fs @ gs) \<subseteq> set (concat (map calls_of (s # ss)))"
      using fs by auto
    then show ?thesis by blast
  next
    case (Raised x)
    then have "tr' = t1" using "10.prems" e by simp
    then show ?thesis using fs by auto
  qed
qed

lemma iterate_Done:
  assumes "\<And>t. fst (body t) = Done"
  shows "fst (iterate n body tr) = Done"
proof (induction n arbitrary: tr)
  case 0
  show ?case by simp
next
  case (Suc n)
  obtain t1 where "body tr = (Done, t1)"
    using assms [of tr] by (cases "body tr") simp
  then show ?case using Suc.IH by simp
qed

lemma exec_never_raises:
  "raises w = (\<lambda>f tr. None) \<Longrightarrow> fst (exec w s tr) = Done"
  "raises w = (\<lambda>f tr. None) \<Longrightarrow> fst (exec_list w ss tr) = Done"
proof (induction w s tr and w ss tr rule: exec_exec_list.induct)
  case (5 w c body tr)
  have "fst (case call w (''next '' @ c) t of
               (Done, t') \<Rightarrow> exec_list w body t'
             | (Raised e, t') \<Rightarrow> (Raised e, t')) = Done" for t
  proof -
    have c: "call w (''next '' @ c) t = (Done, t @ [''next '' @ c])"
      using "5.prems" by (simp add: call_def)
    from "5.IH" [OF c [symmetric] refl "5.prems"] c show ?thesis
      by simp
  qed
  then show ?case
    by (simp add: iterate_Done)
next
  case (6 w body handler tr)
  then show ?case
    by (cases "exec_list w body tr") (auto split: outcome.splits)
next
  case (10 w s ss tr)
  obtain o1 t1 where e: "exec w s tr = (o1, t1)"
    by (cases "exec w s tr")
  then have "o1 = Done"
    using "10.IH"(1) "10.prems" by simp
  then show ?case
    using "10.IH"(2) [OF e [symmetric]] "10.prems" e by simp
qed (simp_all add: call_def)

lemma moco_never_calls_save:
  "''checkpointer.save'' \<notin> set (concat (map calls_of (concat moco_notebook)))"
  by (simp add: notebook_code_defs)

lemma simclr_split:
  "concat simclr_notebook =
     butlast (butlast (concat simclr_notebook))
     @ [Call ''DetectionCheckpointer'', Call ''checkpointer.save'']"
  by (simp add: notebook_code_defs)

lemma simclr_save_is_last:
  "''checkpointer.save'' \<notin> set (concat (map calls_of (butlast (butlast (concat simclr_notebook)))))"
  by (simp add: notebook_code_defs)

lemma simclr_runs:
  assumes run: "run_notebook w simclr_notebook = (out, tr)"
  shows "''checkpointer.save'' \<notin> set (butlast tr)"
    and "out = Done \<Longrightarrow> tr \<noteq> [] \<and> last tr = ''checkpointer.save''"
proof -
  let ?pre = "butlast (butlast (concat simclr_notebook))"
  let ?S = "''checkpointer.save''" and ?D = "''DetectionCheckpointer''"
  obtain o1 t1 where pre: "exec_list w ?pre [] = (o1, t1)"
    by (cases "exec_list w ?pre []")
  from exec_calls(2) [OF pre] simclr_save_is_last have t1: "?S \<notin> set t1"
    by auto
  have whole: "(out, tr) =
     (case exec_list w ?pre [] of
        (Done, tr') \<Rightarrow> exec_list w [Call ?D, Call ?S] tr'
      | (Raised e, tr') \<Rightarrow> (Raised e, tr'))"
    using run unfolding run_notebook_def by (subst (asm) simclr_split) (simp only: exec_list_append)
  have "?S \<notin> set (butlast tr) \<and> (out = Done \<longrightarrow> tr \<noteq> [] \<and> last tr = ?S)"
  proof (cases o1)
    case (Raised e)
    then have "tr = t1" using whole pre by simp
    moreover have "out \<noteq> Done" using whole pre Raised by simp
    ultimately show ?thesis using t1 by (auto dest: in_set_butlastD)
  next
    case Done
    then have rest: "(out, tr) = exec_list w [Call ?D, Call ?S] t1"
      using whole pre by simp
    show ?thesis
    proof (cases "raises w ?D t1")
      case (Some e)
      then have "out = Raised e" "tr = t1 @ [?D]"
        using rest by (simp_all add: call_def)
      then show ?thesis using t1 by simp
    next
      case None
      then have "tr = t1 @ [?D, ?S]"
        using rest by (cases "raises w ?S (t1 @ [?D])") (simp_all add: call_def)
      then show ?thesis using t1 by (simp add: butlast_append)
    qed
  qed
  then show "?S \<notin> set (butlast tr)" and "out = Done \<Longrightarrow> tr \<noteq> [] \<and> last tr = ?S"
    by blast+
qed

text \<open>
  C5. Only the SimCLR notebook writes a checkpoint. Every run of it that completes
  calls \<^verbatim>\<open>checkpointer.save\<close> exactly once, as the last call of the run, so after the
  training loop has completed; and in no run of it, completed or not, does that call
  come before the last call. The code of the MoCo notebook never calls it, in any run:
  a checkpoint of a MoCo run can only be written by the trainer of the framework inside
  \<^verbatim>\<open>trainer.fit\<close>, which is not code of the repository.
\<close>

theorem checkpoint_written_by_simclr_only:
  "(\<forall>w tr. run_notebook w simclr_notebook = (Done, tr) \<longrightarrow> writes_checkpoint_once_at_end tr)
 \<and> (\<forall>w out tr. run_notebook w simclr_notebook = (out, tr) \<longrightarrow>
        ''checkpointer.save'' \<notin> set (butlast tr))
 \<and> (\<forall>w out tr. run_notebook w moco_notebook = (out, tr) \<longrightarrow> ''checkpointer.save'' \<notin> set tr)"
proof -
  have 1: "writes_checkpoint_once_at_end tr" if "run_notebook w simclr_notebook = (Done, tr)" for w tr
    using simclr_runs [OF that] by (simp add: writes_checkpoint_once_at_end_def)
  have 2: "''checkpointer.save'' \<notin> set (butlast tr)"
    if "run_notebook w simclr_notebook = (out, tr)" for w out tr
    using simclr_runs(1) [OF that] .
  have 3: "''checkpointer.save'' \<notin> set tr" if "run_notebook w moco_notebook = (out, tr)" for w out tr
  proof -
    from that have "exec_list w (concat moco_notebook) [] = (out, tr)"
      by (simp add: run_notebook_def)
    from exec_calls(2) [OF this] moco_never_calls_save show ?thesis
      by auto
  qed
  from 1 2 3 show ?thesis by blast
qed

text \<open>The runs of the two notebooks in the world where nothing raises.\<close>

theorem checkpoint_written_by_simclr_only_witness:
  "writes_checkpoint_once_at_end (snd (run_notebook plain_world simclr_notebook))
 \<and> ''checkpointer.save'' \<notin> set (snd (run_notebook plain_world moco_notebook))"
proof -
  have "fst (run_notebook plain_world simclr_notebook) = Done"
    by (simp add: run_notebook_def exec_never_raises plain_world_def)
  then have simclr: "run_notebook plain_world simclr_notebook
                       = (Done, snd (run_notebook plain_world simclr_notebook))"
    by (metis prod.collapse)
  have moco: "run_notebook plain_world moco_notebook
                = (fst (run_notebook plain_world moco_notebook),
                   snd (run_notebook plain_world moco_notebook))"
    by simp
  from checkpoint_written_by_simclr_only simclr moco show ?thesis
    by blast
qed

text \<open>
  The run of the MoCo notebook in the world where nothing raises completes and does not
  write the checkpoint once at its end.
\<close>

theorem checkpoint_written_once_counterexample:
  "fst (run_notebook plain_world moco_notebook) = Done
 \<and> \<not> writes_checkpoint_once_at_end (snd (run_notebook plain_world moco_notebook))"
proof -
  let ?tr = "snd (run_notebook plain_world moco_notebook)"
  have completes: "fst (run_notebook plain_world moco_notebook) = Done"
    by (simp add: run_notebook_def exec_never_raises plain_world_def)
  then have "exec_list plain_world (concat moco_notebook) [] = (Done, ?tr)"
    unfolding run_notebook_def by (metis prod.collapse)
  from exec_calls(2) [OF this] moco_never_calls_save
  have never: "''checkpointer.save'' \<notin> set ?tr"
    by auto
  have "\<not> writes_checkpoint_once_at_end ?tr"
  proof
    assume "writes_checkpoint_once_at_end ?tr"
    then have "''checkpointer.save'' \<in> set ?tr"
      unfolding writes_checkpoint_once_at_end_def by (metis last_in_set)
    with never show False
      by contradiction
  qed
  with completes show ?thesis
    by blast
qed

end
